theory Spec2Isabelle
  imports Main "HOL-Library.Char_ord" "HOL-Library.List_Lexorder"
begin

section \<open>The profile and like store (db.py)\<close>

text \<open>
  The store is one SQLite file with two tables. A table is the list of its rows in
  rowid order: an INSERT appends, an UPDATE rewrites rows in place, a DELETE removes
  rows. The \<open>id\<close> column of \<open>profiles\<close> is never selected by any query of db.py and
  is left out. Text values are \<open>string\<close>s, read as ASCII; TEXT columns compare
  byte-wise, which is the lexicographic order of \<open>string\<close>. User identities are the
  transport's user ids, integers that fit an INTEGER column.
\<close>

record profile_row =
  tg_id :: int
  server :: string
  nickname :: string
  uid :: string
  adventure_rank :: string
  playstyle :: string
  languages :: string
  platforms :: string
  playtime :: string
  bio :: string
  created_at :: string

record like_row =
  owner_id :: int
  viewer_id :: int
  created :: string

record database =
  profiles :: "profile_row list"
  likes :: "like_row list"

text \<open>
  The dictionary of answers that the dialog accumulates and that \<open>save_profile\<close>
  receives. A key that is absent is \<open>None\<close>; \<open>editing\<close> is absent or \<open>True\<close> and is
  only ever read as \<open>data.get("editing", False)\<close>.
\<close>

record form_data =
  d_server :: "string option"
  d_nickname :: "string option"
  d_uid :: "string option"
  d_adventure_rank :: "string option"
  d_languages :: "string option"
  d_playtime :: "string option"
  d_bio :: "string option"
  d_platforms :: "string option"
  d_playstyle :: "string option"
  d_editing :: bool
  d_message_target :: "int option"

text \<open>\<open>data.get(key, "")\<close>\<close>

definition get_or_empty :: "string option \<Rightarrow> string" where
  "get_or_empty v = (case v of None \<Rightarrow> [] | Some s \<Rightarrow> s)"

subsection \<open>Connections and the foreign-key pragma\<close>

text \<open>
  Every function of db.py opens its own connection with \<open>aiosqlite.connect(DB_PATH)\<close>
  and runs its statements on it. SQLite enforces foreign keys on a connection only
  after \<open>PRAGMA foreign_keys = ON\<close> has been executed on that connection; the
  setting is off on a fresh connection. db.py never executes the pragma, so
  \<open>connect\<close> yields a connection on which the \<open>FOREIGN KEY ... ON DELETE CASCADE\<close>
  clause of the \<open>likes\<close> table is not in force.
\<close>

record connection =
  foreign_keys :: bool

definition connect :: connection where
  "connect = \<lparr>foreign_keys = False\<rparr>"

datatype sql_error = IntegrityError

text \<open>\<open>DELETE FROM profiles WHERE tg_id = ?\<close>, with the cascade of the \<open>likes\<close> table
  when the connection enforces foreign keys and a parent row goes.\<close>

definition exec_delete_profile :: "connection \<Rightarrow> int \<Rightarrow> database \<Rightarrow> database" where
  "exec_delete_profile c t d =
     (let gone = filter (\<lambda>p. tg_id p = t) (profiles d);
          kept = filter (\<lambda>p. tg_id p \<noteq> t) (profiles d)
      in if foreign_keys c \<and> gone \<noteq> []
         then d\<lparr>profiles := kept, likes := filter (\<lambda>l. owner_id l \<noteq> t) (likes d)\<rparr>
         else d\<lparr>profiles := kept\<rparr>)"

text \<open>\<open>INSERT INTO likes (owner_id, viewer_id, created_at) VALUES (?, ?, ?)\<close>: the primary
  key \<open>(owner_id, viewer_id)\<close> rejects a second row for the pair; the foreign key
  rejects an owner without a profile when it is enforced.\<close>

definition exec_insert_like :: "connection \<Rightarrow> like_row \<Rightarrow> database \<Rightarrow> sql_error + database" where
  "exec_insert_like c r d =
     (if filter (\<lambda>l. owner_id l = owner_id r \<and> viewer_id l = viewer_id r) (likes d) \<noteq> []
      then Inl IntegrityError
      else if foreign_keys c \<and> filter (\<lambda>p. tg_id p = owner_id r) (profiles d) = []
      then Inl IntegrityError
      else Inr (d\<lparr>likes := likes d @ [r]\<rparr>))"

subsection \<open>Profiles API\<close>

definition updated_row :: "form_data \<Rightarrow> profile_row \<Rightarrow> profile_row" where
  "updated_row dat p =
     p\<lparr>server := get_or_empty (d_server dat), nickname := get_or_empty (d_nickname dat),
       uid := get_or_empty (d_uid dat), adventure_rank := get_or_empty (d_adventure_rank dat),
       languages := get_or_empty (d_languages dat), playtime := get_or_empty (d_playtime dat),
       bio := get_or_empty (d_bio dat), platforms := get_or_empty (d_platforms dat),
       playstyle := get_or_empty (d_playstyle dat)\<rparr>"

definition inserted_row :: "int \<Rightarrow> form_data \<Rightarrow> string \<Rightarrow> profile_row" where
  "inserted_row t dat now =
     \<lparr>tg_id = t, server = get_or_empty (d_server dat), nickname = get_or_empty (d_nickname dat),
      uid = get_or_empty (d_uid dat), adventure_rank = get_or_empty (d_adventure_rank dat),
      playstyle = get_or_empty (d_playstyle dat), languages = get_or_empty (d_languages dat),
      platforms = get_or_empty (d_platforms dat), playtime = get_or_empty (d_playtime dat),
      bio = get_or_empty (d_bio dat), created_at = now\<rparr>"

text \<open>\<open>save_profile\<close>: \<open>now\<close> is the clock reading taken on entry.\<close>

definition save_profile :: "int \<Rightarrow> form_data \<Rightarrow> string \<Rightarrow> database \<Rightarrow> database" where
  "save_profile t dat now d =
     (if find (\<lambda>p. tg_id p = t) (profiles d) \<noteq> None
      then d\<lparr>profiles := map (\<lambda>p. if tg_id p = t then updated_row dat p else p) (profiles d)\<rparr>
      else d\<lparr>profiles := profiles d @ [inserted_row t dat now]\<rparr>)"

definition get_profile_by_tg :: "int \<Rightarrow> database \<Rightarrow> profile_row option" where
  "get_profile_by_tg t d = find (\<lambda>p. tg_id p = t) (profiles d)"

definition delete_profile :: "int \<Rightarrow> database \<Rightarrow> database" where
  "delete_profile t d = exec_delete_profile connect t d"

definition count_profiles :: "string \<Rightarrow> database \<Rightarrow> int" where
  "count_profiles srv d = int (length (filter (\<lambda>p. server p = srv) (profiles d)))"

text \<open>
  \<open>ORDER BY created_at DESC\<close>: rows with a later timestamp first; rows with equal
  timestamps stay in rowid order, as SQLite's sorter leaves them.
\<close>

fun insort_desc :: "profile_row \<Rightarrow> profile_row list \<Rightarrow> profile_row list" where
  "insort_desc x [] = [x]"
| "insort_desc x (y # ys) =
     (if created_at y \<le> created_at x then x # y # ys else y # insort_desc x ys)"

definition order_by_created_at_desc :: "profile_row list \<Rightarrow> profile_row list" where
  "order_by_created_at_desc xs = foldr insort_desc xs []"

text \<open>\<open>LIMIT ? OFFSET ?\<close>: a negative limit is no limit, a negative offset is offset 0.\<close>

definition limit_offset :: "int \<Rightarrow> int \<Rightarrow> 'a list \<Rightarrow> 'a list" where
  "limit_offset lim off xs =
     (let rest = drop (nat off) xs in if lim < 0 then rest else take (nat lim) rest)"

definition list_profiles :: "string \<Rightarrow> int \<Rightarrow> int \<Rightarrow> database \<Rightarrow> profile_row list" where
  "list_profiles srv lim off d =
     limit_offset lim off (order_by_created_at_desc (filter (\<lambda>p. server p = srv) (profiles d)))"

subsection \<open>Likes API\<close>

text \<open>\<open>add_like\<close>: \<open>now\<close> is the clock reading; the \<open>IntegrityError\<close> is caught.\<close>

definition add_like :: "int \<Rightarrow> int \<Rightarrow> string \<Rightarrow> database \<Rightarrow> bool \<times> database" where
  "add_like viewer owner now d =
     (case exec_insert_like connect \<lparr>owner_id = owner, viewer_id = viewer, created = now\<rparr> d of
        Inr d' \<Rightarrow> (True, d')
      | Inl IntegrityError \<Rightarrow> (False, d))"

definition has_liked :: "int \<Rightarrow> int \<Rightarrow> database \<Rightarrow> bool" where
  "has_liked viewer owner d =
     (find (\<lambda>l. viewer_id l = viewer \<and> owner_id l = owner) (likes d) \<noteq> None)"

definition get_likes_count :: "int \<Rightarrow> database \<Rightarrow> int" where
  "get_likes_count owner d = int (length (filter (\<lambda>l. owner_id l = owner) (likes d)))"


subsection \<open>Sequences of store calls\<close>

text \<open>
  Each function of db.py runs one writing statement in its own transaction, so calls made
  by concurrently handled events reach the store one after another, in some order. A
  run is the list of calls in that order.
\<close>

datatype store_call = SaveProfile int form_data string | DeleteProfile int | AddLike int int string

fun run_call :: "store_call \<Rightarrow> database \<Rightarrow> database" where
  "run_call (SaveProfile t dat now) d = save_profile t dat now d"
| "run_call (DeleteProfile t) d = delete_profile t d"
| "run_call (AddLike v ow now) d = snd (add_like v ow now d)"

text \<open>What the \<open>add_like\<close> calls for the pair \<open>(v, ow)\<close> return during a run, in call order.\<close>

fun answers :: "int \<Rightarrow> int \<Rightarrow> store_call list \<Rightarrow> database \<Rightarrow> bool list" where
  "answers v ow [] d = []"
| "answers v ow (AddLike v' ow' now # cs) d =
     (if v' = v \<and> ow' = ow then [fst (add_like v' ow' now d)] else []) @
     answers v ow cs (run_call (AddLike v' ow' now) d)"
| "answers v ow (c # cs) d = answers v ow cs (run_call c d)"

fun is_add_like :: "int \<Rightarrow> int \<Rightarrow> store_call \<Rightarrow> bool" where
  "is_add_like v ow (AddLike v' ow' now) = (v' = v \<and> ow' = ow)"
| "is_add_like v ow c = False"

text \<open>The number of like rows for the pair.\<close>

definition edges :: "int \<Rightarrow> int \<Rightarrow> database \<Rightarrow> nat" where
  "edges v ow d = length (filter (\<lambda>l. viewer_id l = v \<and> owner_id l = ow) (likes d))"

section \<open>Python text operations used by bot.py\<close>

text \<open>
  Texts are ASCII strings. \<open>str.strip\<close> and \<open>str.split()\<close> take as whitespace the
  characters for which \<open>str.isspace\<close> holds (codes 9 to 13 and 28 to 32); \<open>int\<close> strips
  only codes 9 to 13 and 32 from an ASCII text.
\<close>

definition is_space :: "char \<Rightarrow> bool" where
  "is_space c = (let n = (of_char c :: nat) in (9 \<le> n \<and> n \<le> 13) \<or> (28 \<le> n \<and> n \<le> 32))"

definition str_strip :: "string \<Rightarrow> string" where
  "str_strip s = rev (dropWhile is_space (rev (dropWhile is_space s)))"

definition upper_char :: "char \<Rightarrow> char" where
  "upper_char c =
     (let n = (of_char c :: nat) in if 97 \<le> n \<and> n \<le> 122 then char_of (n - 32) else c)"

definition str_upper :: "string \<Rightarrow> string" where
  "str_upper s = map upper_char s"

text \<open>\<open>s.replace(c, "")\<close> for a one-character \<open>c\<close>\<close>

definition str_remove :: "char \<Rightarrow> string \<Rightarrow> string" where
  "str_remove c s = filter (\<lambda>x. x \<noteq> c) s"

text \<open>\<open>s.split(sep)\<close> for a one-character separator: never the empty list.\<close>

fun str_split :: "char \<Rightarrow> string \<Rightarrow> string list" where
  "str_split sep [] = [[]]"
| "str_split sep (c # cs) =
     (if c = sep then [] # str_split sep cs
      else (case str_split sep cs of [] \<Rightarrow> [[c]] | x # xs \<Rightarrow> (c # x) # xs))"

fun str_join :: "string \<Rightarrow> string list \<Rightarrow> string" where
  "str_join sep [] = []"
| "str_join sep [x] = x"
| "str_join sep (x # y # ys) = x @ sep @ str_join sep (y # ys)"

definition is_digit :: "char \<Rightarrow> bool" where
  "is_digit c = (let n = (of_char c :: nat) in 48 \<le> n \<and> n \<le> 57)"

definition digit_value :: "char \<Rightarrow> nat" where
  "digit_value c = of_char c - 48"

text \<open>The digits of a decimal literal after the first one: single underscores may
  separate digits.\<close>

fun more_digits :: "nat \<Rightarrow> string \<Rightarrow> nat option" where
  "more_digits acc [] = Some acc"
| "more_digits acc (c # cs) =
     (if c = CHR ''_'' then
        (case cs of [] \<Rightarrow> None
         | d # ds \<Rightarrow> if is_digit d then more_digits (10 * acc + digit_value d) ds else None)
      else if is_digit c then more_digits (10 * acc + digit_value c) cs
      else None)"

definition is_int_space :: "char \<Rightarrow> bool" where
  "is_int_space c = (let n = (of_char c :: nat) in (9 \<le> n \<and> n \<le> 13) \<or> n = 32)"

definition unsigned_literal :: "string \<Rightarrow> nat option" where
  "unsigned_literal s =
     (case s of [] \<Rightarrow> None
      | c # cs \<Rightarrow> if is_digit c then more_digits (digit_value c) cs else None)"

text \<open>\<open>int(s)\<close> on a text: \<open>None\<close> is the \<open>ValueError\<close>. A message text has at most
  4096 characters, fewer than the digits at which an interpreter may refuse a literal
  for its length.\<close>

definition py_int :: "string \<Rightarrow> int option" where
  "py_int s =
     (case rev (dropWhile is_int_space (rev (dropWhile is_int_space s))) of
        [] \<Rightarrow> None
      | c # cs \<Rightarrow>
          if c = CHR ''-'' then map_option (\<lambda>n. - int n) (unsigned_literal cs)
          else if c = CHR ''+'' then map_option int (unsigned_literal cs)
          else map_option int (unsigned_literal (c # cs)))"

text \<open>\<open>str(n)\<close> for an integer.\<close>

definition digit_char :: "nat \<Rightarrow> char" where
  "digit_char n = char_of (48 + n)"

fun str_nat :: "nat \<Rightarrow> string" where
  "str_nat n = (if n < 10 then [digit_char n] else str_nat (n div 10) @ [digit_char (n mod 10)])"

definition py_str :: "int \<Rightarrow> string" where
  "py_str i = (if i < 0 then CHR ''-'' # str_nat (nat (- i)) else str_nat (nat i))"


section \<open>The bot (bot.py)\<close>

subsection \<open>Catalogues and helpers\<close>

definition LANG_BUTTONS :: "string list" where
  "LANG_BUTTONS = [''RU'', ''EN'', ''UA'', ''BY'', ''KZ'', ''RS'', ''EE'', ''BG'',
                   ''LT'', ''LV'', ''GE'', ''MD'']"

text \<open>\<open>set([p.strip().upper() for p in langs_raw.split(",") if p.strip()])\<close>\<close>

definition selected_languages :: "string \<Rightarrow> string set" where
  "selected_languages langs_raw =
     set (map (\<lambda>p. str_upper (str_strip p))
            (filter (\<lambda>p. str_strip p \<noteq> []) (str_split CHR '','' langs_raw)))"

text \<open>\<open>callback_query.data.split(":", 1)[1]\<close>, for data that holds a colon (the handler
  filters require the prefix).\<close>

definition after_colon :: "string \<Rightarrow> string" where
  "after_colon data = drop 1 (dropWhile (\<lambda>c. c \<noteq> CHR '':'') data)"

text \<open>\<open>get_owner_id\<close>: of the keys it tries, a listed profile has only \<open>tg_id\<close>; a
  value of 0 is falsy and gives \<open>None\<close>.\<close>

definition get_owner_id :: "profile_row \<Rightarrow> int option" where
  "get_owner_id prof = (if tg_id prof \<noteq> 0 then Some (tg_id prof) else None)"

subsection \<open>State of the running bot\<close>

datatype form = Form_choosing_server | Form_nickname | Form_uid | Form_adventure_rank
  | Form_languages | Form_playtime | Form_bio | Form_confirm | Form_sending_message

record view_ctx =
  ctx_server :: string
  ctx_offset :: int
  ctx_total :: int
  ctx_owner_id :: "int option"
  ctx_profile_id :: "int option"
  ctx_keyboard_message_id :: int
  ctx_profile_message_id :: int

text \<open>The texts the modelled handlers send, one constructor per message of bot.py.\<close>

datatype notice =
    No_profiles string
  | Menu
  | Load_error
  | Profile_card profile_row int
  | Actions
  | No_current_profile
  | Like_no_owner
  | Like_own_profile
  | Already_liked
  | Like_notice int
  | Like_sent
  | Like_not_notified
  | Like_failed
  | No_more_profiles
  | Last_profile
  | Letter_no_owner
  | Letter_self
  | Enter_message
  | Browsing_stopped
  | Sending_cancelled
  | No_recipient
  | Forwarded int string
  | Letter_sent
  | Letter_not_sent
  | Ar_bad_format
  | Ar_out_of_range
  | Choose_languages bool "string set"
  | Updated
  | Ask_playtime
  | Playtime_bad_format
  | Playtime_out_of_range
  | Ask_bio
  | Profile_deleted
  | Create_new_hint
  | No_access
  | Bad_data
  | Bad_tg_id
  | Deleted_ack
  | Deleted_report int
  | Deleted_by_admin

datatype event =
    Send int notice
  | Edit int int notice
  | Delete int int
  | Answer_callback "notice option"

text \<open>
  \<open>view_contexts\<close> is the module-level dictionary of browsing cursors; \<open>fsm_state\<close>
  and \<open>fsm_data\<close> are the dialog state and the answers the dispatcher's storage keeps
  for each user; \<open>outbox\<close> lists what was handed to the transport, in order. A handler
  runs on the world as one step. A send that a handler does not guard is taken to be
  delivered; where a handler catches a failed delivery, the outcome is an argument
  of the handler. \<open>message.answer\<close> goes to the sender's private chat.
\<close>

record world =
  db :: database
  view_contexts :: "int \<rightharpoonup> view_ctx"
  fsm_state :: "int \<Rightarrow> form option"
  fsm_data :: "int \<Rightarrow> form_data"
  outbox :: "event list"
  next_message_id :: int

definition send_message :: "int \<Rightarrow> notice \<Rightarrow> world \<Rightarrow> int \<times> world" where
  "send_message chat n w =
     (next_message_id w,
      w\<lparr>outbox := outbox w @ [Send chat n], next_message_id := next_message_id w + 1\<rparr>)"

text \<open>A send whose returned message is not used.\<close>

definition say :: "int \<Rightarrow> notice \<Rightarrow> world \<Rightarrow> world" where
  "say chat n w = snd (send_message chat n w)"

definition answer_callback_query :: "notice option \<Rightarrow> world \<Rightarrow> world" where
  "answer_callback_query n w = w\<lparr>outbox := outbox w @ [Answer_callback n]\<rparr>"

text \<open>\<open>bot.delete_message\<close> inside \<open>try ... except Exception: pass\<close>\<close>

definition delete_message :: "int \<Rightarrow> int \<Rightarrow> world \<Rightarrow> world" where
  "delete_message chat mid w = w\<lparr>outbox := outbox w @ [Delete chat mid]\<rparr>"

definition update_data :: "int \<Rightarrow> (form_data \<Rightarrow> form_data) \<Rightarrow> world \<Rightarrow> world" where
  "update_data user f w = w\<lparr>fsm_data := (fsm_data w)(user := f (fsm_data w user))\<rparr>"

definition set_state :: "int \<Rightarrow> form \<Rightarrow> world \<Rightarrow> world" where
  "set_state user st w = w\<lparr>fsm_state := (fsm_state w)(user := Some st)\<rparr>"

text \<open>\<open>state.finish()\<close> clears the state and the data.\<close>

definition empty_data :: form_data where
  "empty_data = \<lparr>d_server = None, d_nickname = None, d_uid = None, d_adventure_rank = None,
     d_languages = None, d_playtime = None, d_bio = None, d_platforms = None,
     d_playstyle = None, d_editing = False, d_message_target = None\<rparr>"

definition finish :: "int \<Rightarrow> world \<Rightarrow> world" where
  "finish user w = w\<lparr>fsm_state := (fsm_state w)(user := None),
                      fsm_data := (fsm_data w)(user := empty_data)\<rparr>"

subsection \<open>Core flow\<close>

text \<open>Lines 142 to 146, \<open># clamp offset\<close>: the two assignments in sequence.\<close>

definition clamp_offset :: "int \<Rightarrow> int \<Rightarrow> int" where
  "clamp_offset n offset =
     (let offset1 = (if offset < 0 then 0 else offset)
      in if offset1 \<ge> n then n - 1 else offset1)"

definition send_profile_with_actions :: "int \<Rightarrow> string \<Rightarrow> int \<Rightarrow> world \<Rightarrow> world" where
  "send_profile_with_actions viewer srv offset w =
     (let total = count_profiles srv (db w) in
      if total = 0 then say viewer Menu (say viewer (No_profiles srv) w)
      else
        let offset2 = clamp_offset total offset
        in case list_profiles srv 1 offset2 (db w) of
             [] \<Rightarrow> say viewer Load_error w
           | prof # _ \<Rightarrow>
               let owner = get_owner_id prof;
                   like_num = (case owner of None \<Rightarrow> 0 | Some ow \<Rightarrow> get_likes_count ow (db w));
                   sent1 = send_message viewer (Profile_card prof like_num) w;
                   prev_kb_msg_id = (case view_contexts (snd sent1) viewer of
                                       None \<Rightarrow> None
                                     | Some prev_ctx \<Rightarrow> Some (ctx_keyboard_message_id prev_ctx));
                   sent2 = send_message viewer Actions (snd sent1);
                   w3 = (case prev_kb_msg_id of
                           None \<Rightarrow> snd sent2
                         | Some k \<Rightarrow> if k \<noteq> 0 then delete_message viewer k (snd sent2)
                                     else snd sent2)
               in w3\<lparr>view_contexts := (view_contexts w3)(viewer \<mapsto>
                        \<lparr>ctx_server = srv, ctx_offset = offset2, ctx_total = total,
                         ctx_owner_id = owner, ctx_profile_id = owner,
                         ctx_keyboard_message_id = fst sent2,
                         ctx_profile_message_id = fst sent1\<rparr>)\<rparr>)"

definition process_browse_server :: "int \<Rightarrow> string \<Rightarrow> world \<Rightarrow> world" where
  "process_browse_server user data w =
     send_profile_with_actions user (after_colon data) 0 (answer_callback_query None w)"

subsection \<open>Actions on the profile under review\<close>

datatype action = Like | Letter | Dislike | Stop

text \<open>\<open>kb_msg_id = ctx.get("keyboard_message_id")\<close>, deleted when truthy.\<close>

definition delete_keyboard :: "int \<Rightarrow> view_ctx \<Rightarrow> world \<Rightarrow> world" where
  "delete_keyboard user ctx w =
     (if ctx_keyboard_message_id ctx \<noteq> 0
      then delete_message user (ctx_keyboard_message_id ctx) w else w)"

definition pop_context :: "int \<Rightarrow> world \<Rightarrow> world" where
  "pop_context user w = w\<lparr>view_contexts := (view_contexts w)(user := None)\<rparr>"

text \<open>
  The Like action from the result of \<open>db.add_like\<close> on: \<open>inserted\<close> is that result,
  \<open>notified\<close> tells whether the notice reached the owner.
\<close>

definition like_finish :: "bool \<Rightarrow> bool \<Rightarrow> int \<Rightarrow> int \<Rightarrow> view_ctx \<Rightarrow> world \<Rightarrow> world" where
  "like_finish inserted notified user owner ctx w =
     (let w1 = (if inserted then
                  (if notified then say user Like_sent (say owner (Like_notice user) w)
                   else say user Like_not_notified w)
                else say user Like_failed w);
          next_offset = ctx_offset ctx + 1
      in if next_offset \<ge> ctx_total ctx
         then say user No_more_profiles (pop_context user (delete_keyboard user ctx w1))
         else send_profile_with_actions user (ctx_server ctx) next_offset w1)"

definition handle_action_message :: "action \<Rightarrow> int \<Rightarrow> string \<Rightarrow> bool \<Rightarrow> world \<Rightarrow> world" where
  "handle_action_message cmd user now notified w =
     (case view_contexts w user of
        None \<Rightarrow> say user No_current_profile w
      | Some ctx \<Rightarrow>
          (case cmd of
             Like \<Rightarrow>
               (case ctx_owner_id ctx of
                  None \<Rightarrow> say user Like_no_owner w
                | Some owner \<Rightarrow>
                    if owner = 0 then say user Like_no_owner w
                    else if owner = user then say user Like_own_profile w
                    else if has_liked user owner (db w) then say user Already_liked w
                    else let res = add_like user owner now (db w)
                         in like_finish (fst res) notified user owner ctx (w\<lparr>db := snd res\<rparr>))
           | Dislike \<Rightarrow>
               (let next_offset = ctx_offset ctx + 1
                in if next_offset \<ge> ctx_total ctx
                   then say user Last_profile (pop_context user (delete_keyboard user ctx w))
                   else send_profile_with_actions user (ctx_server ctx) next_offset w)
           | Letter \<Rightarrow>
               (case ctx_owner_id ctx of
                  None \<Rightarrow> say user Letter_no_owner w
                | Some owner \<Rightarrow>
                    if owner = user then say user Letter_self w
                    else set_state user Form_sending_message
                           (say user Enter_message
                              (update_data user (\<lambda>d. d\<lparr>d_message_target := Some owner\<rparr>) w)))
           | Stop \<Rightarrow> say user Browsing_stopped (pop_context user (delete_keyboard user ctx w))))"

text \<open>The new action prompt after a letter: only the cursor's keyboard handle changes.\<close>

definition renew_keyboard :: "int \<Rightarrow> world \<Rightarrow> world" where
  "renew_keyboard user w =
     (case view_contexts w user of
        None \<Rightarrow> say user Menu w
      | Some ctx \<Rightarrow>
          let sent = send_message user Actions w;
              w2 = delete_keyboard user ctx (snd sent)
          in w2\<lparr>view_contexts := (view_contexts w2)(user \<mapsto>
                   ctx\<lparr>ctx_keyboard_message_id := fst sent\<rparr>)\<rparr>)"

definition handle_sending_message :: "int \<Rightarrow> string \<Rightarrow> bool \<Rightarrow> world \<Rightarrow> world" where
  "handle_sending_message user text delivered w =
     (let txt = str_strip text; target_id = d_message_target (fsm_data w user)
      in if txt = ''-'' then renew_keyboard user (finish user (say user Sending_cancelled w))
         else case target_id of
                None \<Rightarrow> finish user (say user No_recipient w)
              | Some target \<Rightarrow>
                  if target = 0 then finish user (say user No_recipient w)
                  else finish user (renew_keyboard user
                         (if delivered then say user Letter_sent (say target (Forwarded user txt) w)
                          else say user Letter_not_sent w)))"

subsection \<open>Dialog steps\<close>

text \<open>Lines 397 to 403 of \<open>process_ar\<close>: \<open>data\<close> was read before the step's update.\<close>

definition ask_languages :: "int \<Rightarrow> form_data \<Rightarrow> world \<Rightarrow> world" where
  "ask_languages user data w =
     set_state user Form_languages
       (say user (Choose_languages (d_editing data)
                    (selected_languages (get_or_empty (d_languages data)))) w)"

definition process_ar :: "int \<Rightarrow> string \<Rightarrow> world \<Rightarrow> world" where
  "process_ar user text w =
     (let txt = str_strip text; data = fsm_data w user; editing = d_editing data
      in if \<not> (txt = ''-'' \<and> editing) then
           (if txt = ''-''
            then ask_languages user data (update_data user (\<lambda>d. d\<lparr>d_adventure_rank := Some []\<rparr>) w)
            else case py_int txt of
                   None \<Rightarrow> say user Ar_bad_format w
                 | Some ar \<Rightarrow>
                     if \<not> (1 \<le> ar \<and> ar \<le> 60) then say user Ar_out_of_range w
                     else ask_languages user data
                            (update_data user (\<lambda>d. d\<lparr>d_adventure_rank := Some (py_str ar)\<rparr>) w))
         else ask_languages user data w)"

text \<open>\<open>edited\<close> tells whether \<open>bot.edit_message_text\<close> succeeded; \<open>message_id\<close> is the
  message that carries the buttons.\<close>

definition process_lang_toggle :: "int \<Rightarrow> string \<Rightarrow> int \<Rightarrow> bool \<Rightarrow> world \<Rightarrow> world" where
  "process_lang_toggle user data message_id edited w =
     (let action = after_colon data;
          langs_raw = get_or_empty (d_languages (fsm_data w user));
          selected = selected_languages langs_raw
      in if action \<in> set LANG_BUTTONS then
           (let selected' = (if action \<in> selected then selected - {action}
                             else insert action selected);
                w1 = update_data user
                       (\<lambda>d. d\<lparr>d_languages := Some (str_join '','' (sorted_list_of_set selected'))\<rparr>) w;
                w2 = (if edited
                      then w1\<lparr>outbox := outbox w1 @
                                [Edit user message_id (Choose_languages False selected')]\<rparr>
                      else say user (Choose_languages False selected')
                             (answer_callback_query (Some Updated) w1))
            in answer_callback_query None w2)
         else if action = ''DONE'' then
           set_state user Form_playtime (say user Ask_playtime (answer_callback_query None w))
         else w)"

text \<open>Lines 445 to 460 of \<open>process_playtime\<close>: the value of \<open>parsed\<close>.\<close>

definition parse_playtime :: "string \<Rightarrow> int option" where
  "parse_playtime txt =
     (let val = str_remove CHR '' '' (str_upper txt)
      in if take 3 val = ''MSK'' then
           (let rest = drop 3 val
            in if rest = [] \<or> rest = ''+'' \<or> rest = ''+0'' then Some 0
               else py_int (str_remove CHR ''+'' rest))
         else py_int val)"

definition ask_bio :: "int \<Rightarrow> world \<Rightarrow> world" where
  "ask_bio user w = set_state user Form_bio (say user Ask_bio w)"

definition process_playtime :: "int \<Rightarrow> string \<Rightarrow> world \<Rightarrow> world" where
  "process_playtime user text w =
     (let txt = str_strip text; data = fsm_data w user; editing = d_editing data
      in if \<not> (txt = ''-'' \<and> editing) then
           (if txt = ''-''
            then ask_bio user (update_data user (\<lambda>d. d\<lparr>d_playtime := Some []\<rparr>) w)
            else case parse_playtime txt of
                   None \<Rightarrow>
                     if 1 \<le> length txt \<and> length txt \<le> 64
                     then ask_bio user (update_data user (\<lambda>d. d\<lparr>d_playtime := Some (take 64 txt)\<rparr>) w)
                     else say user Playtime_bad_format w
                 | Some parsed \<Rightarrow>
                     if \<not> (- 12 \<le> parsed \<and> parsed \<le> 14) then say user Playtime_out_of_range w
                     else let sign = (if parsed \<ge> 0 then CHR ''+'' # py_str parsed
                                      else py_str parsed)
                          in ask_bio user
                               (update_data user (\<lambda>d. d\<lparr>d_playtime := Some (''MSK'' @ sign)\<rparr>) w))
         else ask_bio user w)"

subsection \<open>Deleting a profile\<close>

definition profile_delete_confirm :: "int \<Rightarrow> world \<Rightarrow> world" where
  "profile_delete_confirm user w =
     (let w1 = answer_callback_query None w;
          w2 = w1\<lparr>db := delete_profile user (db w1)\<rparr>
      in say user Create_new_hint (say user Profile_deleted w2))"

text \<open>\<open>developer\<close> is \<open>DEVELOPER_ID_INT\<close>, read from the environment at start;
  \<open>notified\<close> tells whether the notice reached the profile's owner.\<close>

definition dev_delete_profile_callback ::
  "int option \<Rightarrow> int \<Rightarrow> string \<Rightarrow> bool \<Rightarrow> world \<Rightarrow> world" where
  "dev_delete_profile_callback developer user data notified w =
     (if developer = None \<or> Some user \<noteq> developer
      then answer_callback_query (Some No_access) w
      else
        let parts = str_split CHR '':'' data
        in if length parts \<noteq> 3 then answer_callback_query (Some Bad_data) w
           else case py_int (parts ! 2) of
                  None \<Rightarrow> answer_callback_query (Some Bad_tg_id) w
                | Some target_id \<Rightarrow>
                    let w1 = w\<lparr>db := delete_profile target_id (db w)\<rparr>;
                        w2 = say user (Deleted_report target_id)
                               (answer_callback_query (Some Deleted_ack) w1)
                    in if notified then say target_id Deleted_by_admin w2 else w2)"

subsection \<open>What the properties speak about\<close>

text \<open>A cursor is in range when its offset lies in \<open>[0, total - 1]\<close>.\<close>

definition cursor_ok :: "view_ctx \<Rightarrow> bool" where
  "cursor_ok c \<longleftrightarrow> 0 \<le> ctx_offset c \<and> ctx_offset c \<le> ctx_total c - 1"

definition cursors_ok :: "world \<Rightarrow> bool" where
  "cursors_ok w \<longleftrightarrow> (\<forall>u c. view_contexts w u = Some c \<longrightarrow> cursor_ok c)"

text \<open>Where a viewer stands: the cursor without its message handles.\<close>

definition cursor_position :: "world \<Rightarrow> int \<Rightarrow> (string \<times> int \<times> int \<times> int option) option" where
  "cursor_position w u =
     map_option (\<lambda>c. (ctx_server c, ctx_offset c, ctx_total c, ctx_owner_id c)) (view_contexts w u)"

text \<open>The working set of languages that \<open>process_lang_toggle\<close> reads from the answers.\<close>

definition working_set :: "world \<Rightarrow> int \<Rightarrow> string set" where
  "working_set w user = selected_languages (get_or_empty (d_languages (fsm_data w user)))"

text \<open>A small world for concrete runs: owner 1 has the only profile, on server Asia;
  viewer 2 is looking at it.\<close>

definition example_row :: profile_row where
  "example_row = inserted_row 1 (empty_data\<lparr>d_server := Some ''Asia''\<rparr>) ''2024-01-01T00:00:00''"

definition example_ctx :: view_ctx where
  "example_ctx = \<lparr>ctx_server = ''Asia'', ctx_offset = 0, ctx_total = 1, ctx_owner_id = Some 1,
     ctx_profile_id = Some 1, ctx_keyboard_message_id = 11, ctx_profile_message_id = 10\<rparr>"

definition example_world :: world where
  "example_world = \<lparr>db = \<lparr>profiles = [example_row], likes = []\<rparr>,
     view_contexts = [2 \<mapsto> example_ctx], fsm_state = (\<lambda>_. None),
     fsm_data = (\<lambda>_. empty_data), outbox = [], next_message_id = 12\<rparr>"

definition example_ctx2 :: view_ctx where
  "example_ctx2 = example_ctx\<lparr>ctx_total := 2, ctx_owner_id := Some 3, ctx_profile_id := Some 3\<rparr>"

text \<open>A second world: owner 3 has made a profile after owner 1; viewer 2 looks at it.\<close>

definition example_world2 :: world where
  "example_world2 = \<lparr>db = \<lparr>profiles = [example_row,
        inserted_row 3 (empty_data\<lparr>d_server := Some ''Asia''\<rparr>) ''2024-01-02T00:00:00''], likes = []\<rparr>,
     view_contexts = [2 \<mapsto> example_ctx2],
     fsm_state = (\<lambda>_. None), fsm_data = (\<lambda>_. empty_data), outbox = [], next_message_id = 12\<rparr>"

text \<open>A language code as the stored answer holds it: not empty, without a comma,
  stripped and in upper case.\<close>

definition clean :: "string \<Rightarrow> bool" where
  "clean x \<longleftrightarrow> x \<noteq> [] \<and> CHR '','' \<notin> set x \<and> str_strip x = x \<and> str_upper x = x"

text \<open>A third world: viewer 2 holds a cursor made when the server had three profiles,
  at the first of them, the profile of owner 4; since then only the profile of owner 1
  is left on the server.\<close>

definition example_ctx3 :: view_ctx where
  "example_ctx3 = example_ctx\<lparr>ctx_total := 3, ctx_owner_id := Some 4, ctx_profile_id := Some 4\<rparr>"

definition example_world3 :: world where
  "example_world3 = example_world\<lparr>view_contexts := [2 \<mapsto> example_ctx3]\<rparr>"

text \<open>A signed integer, optionally prefixed MSK, in the words of the description of the
  play-time step: the text is an integer as \<open>int\<close> reads it, or MSK followed by one.\<close>

definition claimed_integer :: "string \<Rightarrow> int option" where
  "claimed_integer txt = (if take 3 txt = ''MSK'' then py_int (drop 3 txt) else py_int txt)"

text \<open>The two halves of \<open>py_int\<close>: the text without the space around it, and the
  reading of what is left; and the characters of a literal.\<close>

definition int_strip :: "string \<Rightarrow> string" where
  "int_strip s = rev (dropWhile is_int_space (rev (dropWhile is_int_space s)))"

definition int_core :: "string \<Rightarrow> int option" where
  "int_core b =
     (case b of
        [] \<Rightarrow> None
      | c # cs \<Rightarrow>
          if c = CHR ''-'' then map_option (\<lambda>n. - int n) (unsigned_literal cs)
          else if c = CHR ''+'' then map_option int (unsigned_literal cs)
          else map_option int (unsigned_literal (c # cs)))"

definition literal_char :: "char \<Rightarrow> bool" where
  "literal_char c \<longleftrightarrow> is_digit c \<or> c = CHR ''_''"

declare str_nat.simps [simp del]

section \<open>Properties of the store\<close>

subsection \<open>Deleting a profile and the likes it received\<close>

lemma py_int_1: "py_int ''1'' = Some 1"
  by (simp add: py_int_def is_int_space_def unsigned_literal_def is_digit_def digit_value_def)

lemma likes_delete_profile: "likes (delete_profile t d) = likes d"
  by (simp add: delete_profile_def exec_delete_profile_def connect_def Let_def)

lemma get_likes_count_delete_profile:
  "get_likes_count owner (delete_profile t d) = get_likes_count owner d"
  by (simp add: get_likes_count_def likes_delete_profile)

lemma cascade_when_enforced:
  "get_profile_by_tg t d \<noteq> None \<Longrightarrow>
   get_likes_count t (exec_delete_profile \<lparr>foreign_keys = True\<rparr> t d) = 0"
  by (auto simp add: get_likes_count_def exec_delete_profile_def get_profile_by_tg_def Let_def
      find_None_iff filter_empty_conv)


text \<open>No call of db.py removes a like: \<open>delete_profile\<close> leaves the table as it is for
  every store, while the same DELETE on a connection that enforces foreign keys
  (\<open>cascade_when_enforced\<close>) would remove the owner's likes.\<close>

text \<open>
  C1 (evaluated on the code): the claim asks that deleting an owner's profile, by the
  owner's confirmation or by the operator's forced delete, also removes every like whose
  target is that owner, so that the owner's like count is 0 afterwards. In a store that
  holds a profile of owner 1 and one like of viewer 2 for owner 1, the like count of
  owner 1 is still 1 after \<open>delete_profile 1\<close>, after the owner's
  \<open>profile_delete_confirm\<close> and after the operator's \<open>dev_delete_profile_callback\<close>:
  the connection that runs the DELETE does not enforce the foreign key that carries
  the cascade.
\<close>

theorem delete_profile_leaves_like:
  "get_likes_count 1
     (delete_profile 1
        \<lparr>profiles = [inserted_row 1 (empty_data\<lparr>d_server := Some ''Asia''\<rparr>) ''2024-01-01T00:00:00''],
         likes = [\<lparr>owner_id = 1, viewer_id = 2, created = ''2024-01-02T00:00:00''\<rparr>]\<rparr>) = 1
   \<and> get_likes_count 1 (db (profile_delete_confirm 1
        \<lparr>db = \<lparr>profiles = [inserted_row 1 (empty_data\<lparr>d_server := Some ''Asia''\<rparr>) ''2024-01-01T00:00:00''],
               likes = [\<lparr>owner_id = 1, viewer_id = 2, created = ''2024-01-02T00:00:00''\<rparr>]\<rparr>,
         view_contexts = Map.empty, fsm_state = (\<lambda>_. None), fsm_data = (\<lambda>_. empty_data),
         outbox = [], next_message_id = 1\<rparr>)) = 1
   \<and> get_likes_count 1 (db (dev_delete_profile_callback (Some 9) 9 ''dev:delete:1'' True
        \<lparr>db = \<lparr>profiles = [inserted_row 1 (empty_data\<lparr>d_server := Some ''Asia''\<rparr>) ''2024-01-01T00:00:00''],
               likes = [\<lparr>owner_id = 1, viewer_id = 2, created = ''2024-01-02T00:00:00''\<rparr>]\<rparr>,
         view_contexts = Map.empty, fsm_state = (\<lambda>_. None), fsm_data = (\<lambda>_. empty_data),
         outbox = [], next_message_id = 1\<rparr>)) = 1"
  by (simp add: get_likes_count_def likes_delete_profile profile_delete_confirm_def
      dev_delete_profile_callback_def answer_callback_query_def say_def send_message_def Let_def py_int_1)

subsection \<open>Adding a like\<close>

lemma has_liked_iff:
  "has_liked v o' d \<longleftrightarrow> (\<exists>l \<in> set (likes d). viewer_id l = v \<and> owner_id l = o')"
  by (auto simp add: has_liked_def find_None_iff)

lemma add_like_fresh:
  "\<not> has_liked v o' d \<Longrightarrow>
   add_like v o' now d = (True, d\<lparr>likes := likes d @ [\<lparr>owner_id = o', viewer_id = v, created = now\<rparr>]\<rparr>)"
  by (auto simp add: add_like_def exec_insert_like_def connect_def has_liked_iff filter_empty_conv)

lemma add_like_dup: "has_liked v o' d \<Longrightarrow> add_like v o' now d = (False, d)"
  by (auto simp add: add_like_def exec_insert_like_def connect_def has_liked_iff filter_empty_conv)

lemma likes_save_profile: "likes (save_profile t dat now d) = likes d"
  by (simp add: save_profile_def)

lemma has_liked_run_call: "has_liked v ow d \<Longrightarrow> has_liked v ow (run_call c d)"
  by (cases c; cases "has_liked (case c of AddLike a _ _ \<Rightarrow> a | _ \<Rightarrow> 0) (case c of AddLike _ b _ \<Rightarrow> b | _ \<Rightarrow> 0) d")
     (auto simp add: has_liked_iff likes_save_profile likes_delete_profile add_like_dup add_like_fresh
       simp del: has_liked_iff[symmetric])

lemma edges_run_call: "has_liked v ow d \<Longrightarrow> edges v ow (run_call c d) = edges v ow d"
proof (cases c)
  case (AddLike v' ow' now)
  assume h: "has_liked v ow d"
  show ?thesis
  proof (cases "has_liked v' ow' d")
    case True
    then show ?thesis using AddLike by (simp add: add_like_dup)
  next
    case False
    with h have "\<not> (v' = v \<and> ow' = ow)" by auto
    with False show ?thesis using AddLike by (auto simp add: add_like_fresh edges_def)
  qed
qed (simp_all add: edges_def likes_save_profile likes_delete_profile)

lemma answers_liked:
  "has_liked v ow d \<Longrightarrow> answers v ow cs d = replicate (length (answers v ow cs d)) False"
proof (induction cs arbitrary: d)
  case Nil
  then show ?case by simp
next
  case (Cons c cs)
  from Cons.prems have h: "has_liked v ow (run_call c d)" by (rule has_liked_run_call)
  have ih: "answers v ow cs (run_call c d) = replicate (length (answers v ow cs (run_call c d))) False"
    using Cons.IH[OF h] .
  show ?case
  proof (cases c)
    case (AddLike v' ow' now)
    show ?thesis
    proof (cases "v' = v \<and> ow' = ow")
      case True
      then show ?thesis using AddLike ih Cons.prems by (simp add: add_like_dup)
    next
      case False
      then show ?thesis using AddLike ih by auto
    qed
  qed (use ih in simp_all)
qed

lemma edges_answers_liked:
  "has_liked v ow d \<Longrightarrow> edges v ow (fold run_call cs d) = edges v ow d"
  by (induction cs arbitrary: d) (simp_all add: has_liked_run_call edges_run_call)

lemma answers_fresh:
  "\<not> has_liked v ow d \<Longrightarrow>
   answers v ow cs d = [] \<and> \<not> has_liked v ow (fold run_call cs d)
   \<or> answers v ow cs d = True # replicate (length (answers v ow cs d) - 1) False
      \<and> edges v ow (fold run_call cs d) = 1"
proof (induction cs arbitrary: d)
  case Nil
  then show ?case by simp
next
  case (Cons c cs)
  show ?case
  proof (cases "\<exists>now. c = AddLike v ow now")
    case True
    then obtain now where c: "c = AddLike v ow now" by blast
    let ?d = "d\<lparr>likes := likes d @ [\<lparr>owner_id = ow, viewer_id = v, created = now\<rparr>]\<rparr>"
    have r: "add_like v ow now d = (True, ?d)" using Cons.prems by (rule add_like_fresh)
    have l: "has_liked v ow ?d" by (simp add: has_liked_iff)
    have e: "edges v ow ?d = 1" using Cons.prems by (auto simp add: edges_def has_liked_iff filter_empty_conv)
    show ?thesis
      using c r answers_liked[OF l, of cs] edges_answers_liked[OF l, of cs] e by simp
  next
    case False
    have nl: "\<not> has_liked v ow (run_call c d)"
    proof (cases c)
      case (AddLike v' ow' now)
      with False have ne: "\<not> (v' = v \<and> ow' = ow)" by auto
      show ?thesis
      proof (cases "has_liked v' ow' d")
        case True
        then show ?thesis using AddLike Cons.prems by (simp add: add_like_dup)
      next
        case False
        then show ?thesis using AddLike Cons.prems ne by (auto simp add: add_like_fresh has_liked_iff)
      qed
    qed (use Cons.prems in \<open>simp_all add: has_liked_def likes_save_profile likes_delete_profile\<close>)
    have a: "answers v ow (c # cs) d = answers v ow cs (run_call c d)"
      using False by (cases c) auto
    show ?thesis using Cons.IH[OF nl] a by simp
  qed
qed


lemma length_answers: "length (answers v ow cs d) = length (filter (is_add_like v ow) cs)"
proof (induction cs arbitrary: d)
  case Nil
  then show ?case by simp
next
  case (Cons c cs)
  then show ?case by (cases c) simp_all
qed

lemma edges_zero: "\<not> has_liked v ow d \<Longrightarrow> edges v ow d = 0"
  by (auto simp add: edges_def has_liked_iff filter_empty_conv)

text \<open>
  C2: for a pair (viewer, owner) that has no like yet, the first \<open>add_like\<close> returns
  \<open>True\<close> and appends the edge, and a second call returns \<open>False\<close> and leaves the store as
  it is (the \<open>IntegrityError\<close> is caught, nothing is raised). In every run of store calls,
  whatever other calls come between, the \<open>add_like\<close> calls for the pair return
  \<open>True\<close> once, at the first call, and \<open>False\<close> ever after, and the store ends with one
  edge for the pair if the pair was liked at all.
\<close>

theorem add_like_once:
  assumes fresh: "\<not> has_liked v ow d"
  shows "add_like v ow now d
           = (True, d\<lparr>likes := likes d @ [\<lparr>owner_id = ow, viewer_id = v, created = now\<rparr>]\<rparr>)
       \<and> add_like v ow now' (snd (add_like v ow now d)) = (False, snd (add_like v ow now d))
       \<and> answers v ow cs d
           = (if filter (is_add_like v ow) cs = [] then []
              else True # replicate (length (filter (is_add_like v ow) cs) - 1) False)
       \<and> edges v ow (fold run_call cs d) = (if filter (is_add_like v ow) cs = [] then 0 else 1)"
proof -
  let ?d = "d\<lparr>likes := likes d @ [\<lparr>owner_id = ow, viewer_id = v, created = now\<rparr>]\<rparr>"
  have first: "add_like v ow now d = (True, ?d)" using fresh by (rule add_like_fresh)
  have "has_liked v ow ?d" by (simp add: has_liked_iff)
  then have second: "add_like v ow now' (snd (add_like v ow now d)) = (False, snd (add_like v ow now d))"
    by (simp add: first add_like_dup)
  have len: "length (answers v ow cs d) = length (filter (is_add_like v ow) cs)"
    by (rule length_answers)
  from answers_fresh[OF fresh, of cs]
  have run: "answers v ow cs d
           = (if filter (is_add_like v ow) cs = [] then []
              else True # replicate (length (filter (is_add_like v ow) cs) - 1) False)
       \<and> edges v ow (fold run_call cs d) = (if filter (is_add_like v ow) cs = [] then 0 else 1)"
  proof
    assume a: "answers v ow cs d = [] \<and> \<not> has_liked v ow (fold run_call cs d)"
    then have "filter (is_add_like v ow) cs = []" using len by simp
    then show ?thesis using a by (simp add: edges_zero)
  next
    assume a: "answers v ow cs d = True # replicate (length (answers v ow cs d) - 1) False
      \<and> edges v ow (fold run_call cs d) = 1"
    then have "answers v ow cs d \<noteq> []" by auto
    then have "filter (is_add_like v ow) cs \<noteq> []" using len by auto
    then show ?thesis using a len by simp
  qed
  show ?thesis using first second run by blast
qed

theorem add_like_once_witness:
  "\<not> has_liked 2 1 \<lparr>profiles = [], likes = []\<rparr>
   \<and> answers 2 1 [AddLike 2 1 ''t1'', DeleteProfile 1, AddLike 3 1 ''t2'', AddLike 2 1 ''t3'']
        \<lparr>profiles = [], likes = []\<rparr> = [True, False]
   \<and> edges 2 1 (fold run_call [AddLike 2 1 ''t1'', DeleteProfile 1, AddLike 3 1 ''t2'', AddLike 2 1 ''t3'']
        \<lparr>profiles = [], likes = []\<rparr>) = 1"
  using add_like_once[of 2 1 "\<lparr>profiles = [], likes = []\<rparr>" "''t''" "''t''"
      "[AddLike 2 1 ''t1'', DeleteProfile 1, AddLike 3 1 ''t2'', AddLike 2 1 ''t3'']"]
  by (simp add: has_liked_def)

subsection \<open>Saving over an existing profile\<close>

definition same_slot :: "profile_row \<Rightarrow> profile_row \<Rightarrow> bool" where
  "same_slot a b \<longleftrightarrow> tg_id a = tg_id b \<and> created_at a = created_at b \<and> server a = server b"

lemma insort_desc_rel:
  assumes "list_all2 R xs ys" and "R x y"
    and key: "\<And>a b. R a b \<Longrightarrow> created_at a = created_at b"
  shows "list_all2 R (insort_desc x xs) (insort_desc y ys)"
  using assms(1,2)
proof (induction xs ys rule: list_all2_induct)
  case Nil
  then show ?case by simp
next
  case (Cons a xs b ys)
  then show ?case using key[of a b] key[of x y] by simp
qed

lemma order_rel:
  assumes "list_all2 R xs ys"
    and key: "\<And>a b. R a b \<Longrightarrow> created_at a = created_at b"
  shows "list_all2 R (order_by_created_at_desc xs) (order_by_created_at_desc ys)"
  using assms(1)
proof (induction xs ys rule: list_all2_induct)
  case Nil
  then show ?case by (simp add: order_by_created_at_desc_def)
next
  case (Cons a xs b ys)
  then show ?case
    using insort_desc_rel[of R "order_by_created_at_desc xs" "order_by_created_at_desc ys" a b] key
    by (simp add: order_by_created_at_desc_def)
qed

lemma filter_rel:
  assumes "list_all2 R xs ys" and "\<And>a b. R a b \<Longrightarrow> P a = P b"
  shows "list_all2 R (filter P xs) (filter P ys)"
  using assms(1)
proof (induction xs ys rule: list_all2_induct)
  case Nil
  then show ?case by simp
next
  case (Cons a xs b ys)
  then show ?case using assms(2)[of a b] by simp
qed

lemma limit_offset_rel:
  "list_all2 R xs ys \<Longrightarrow> list_all2 R (limit_offset lim off xs) (limit_offset lim off ys)"
  by (simp add: limit_offset_def Let_def list_all2_takeI list_all2_dropI)

lemma rel_map_eq:
  assumes "list_all2 R xs ys" and "\<And>a b. R a b \<Longrightarrow> f a = f b"
  shows "map f xs = map f ys"
  using assms(1)
proof (induction xs ys rule: list_all2_induct)
  case Nil
  then show ?case by simp
next
  case (Cons a xs b ys)
  then show ?case using assms(2)[of a b] by simp
qed

lemma update_rel:
  assumes "\<And>p. P p \<Longrightarrow> R p (f p)" and "\<And>p. R p p"
  shows "list_all2 R ps (map (\<lambda>p. if P p then f p else p) ps)"
  by (induction ps) (simp_all add: assms)

lemma updated_row_keeps: "tg_id (updated_row dat p) = tg_id p" "created_at (updated_row dat p) = created_at p"
  "server (updated_row dat p) = get_or_empty (d_server dat)"
  by (simp_all add: updated_row_def)

lemma find_distinct_server:
  "distinct (map tg_id ps) \<Longrightarrow> find (\<lambda>r. tg_id r = t) ps = Some p \<Longrightarrow> r \<in> set ps \<Longrightarrow> tg_id r = t \<Longrightarrow> r = p"
  by (induction ps) (auto split: if_splits)

text \<open>
  C10: when the owner already has a profile (and owner identities are unique in the
  table, as the UNIQUE constraint on \<open>tg_id\<close> keeps them), \<open>save_profile\<close> leaves every
  row's owner and \<open>created_at\<close> as they were, so the order of the owners by descending
  creation time is the same before and after; and when the saved server is the
  profile's server, as it is after the edit dialog, every page of every server's
  listing shows the same owners as before.
\<close>

theorem save_profile_keeps_order:
  assumes ex: "get_profile_by_tg t d = Some p"
    and uniq: "distinct (map tg_id (profiles d))"
  shows "map (\<lambda>r. (tg_id r, created_at r)) (profiles (save_profile t dat now d))
           = map (\<lambda>r. (tg_id r, created_at r)) (profiles d)
       \<and> map tg_id (order_by_created_at_desc (profiles (save_profile t dat now d)))
           = map tg_id (order_by_created_at_desc (profiles d))
       \<and> (get_or_empty (d_server dat) = server p \<longrightarrow>
            (\<forall>srv lim off. map tg_id (list_profiles srv lim off (save_profile t dat now d))
                            = map tg_id (list_profiles srv lim off d)))"
proof -
  let ?R = "\<lambda>a b. tg_id a = tg_id b \<and> created_at a = created_at b"
  let ?d' = "save_profile t dat now d"
  have upd: "profiles ?d' = map (\<lambda>r. if tg_id r = t then updated_row dat r else r) (profiles d)"
    using ex by (simp add: save_profile_def get_profile_by_tg_def)
  have rel: "list_all2 ?R (profiles d) (profiles ?d')"
    unfolding upd by (rule update_rel) (simp_all add: updated_row_keeps)
  have c1: "map (\<lambda>r. (tg_id r, created_at r)) (profiles ?d') = map (\<lambda>r. (tg_id r, created_at r)) (profiles d)"
    using rel_map_eq[OF rel, of "\<lambda>r. (tg_id r, created_at r)"] by simp
  have "list_all2 ?R (order_by_created_at_desc (profiles d)) (order_by_created_at_desc (profiles ?d'))"
    using rel by (rule order_rel) simp
  then have "map tg_id (order_by_created_at_desc (profiles d)) = map tg_id (order_by_created_at_desc (profiles ?d'))"
    by (rule rel_map_eq) simp
  then have c2: "map tg_id (order_by_created_at_desc (profiles ?d')) = map tg_id (order_by_created_at_desc (profiles d))"
    by (rule sym)
  have c3: "map tg_id (list_profiles srv lim off ?d') = map tg_id (list_profiles srv lim off d)"
    if srv: "get_or_empty (d_server dat) = server p" for srv lim off
  proof -
    have "list_all2 same_slot (profiles d) (map (\<lambda>r. if tg_id r = t then updated_row dat r else r) (profiles d))"
    proof -
      have "\<And>r. r \<in> set (profiles d) \<Longrightarrow> same_slot r (if tg_id r = t then updated_row dat r else r)"
        using find_distinct_server[OF uniq ex[unfolded get_profile_by_tg_def]] srv
        by (auto simp add: same_slot_def updated_row_keeps)
      then show ?thesis by (simp add: list_all2_conv_all_nth)
    qed
    then have r: "list_all2 same_slot (profiles d) (profiles ?d')" by (simp add: upd)
    have "list_all2 same_slot (filter (\<lambda>p. server p = srv) (profiles d)) (filter (\<lambda>p. server p = srv) (profiles ?d'))"
      using r by (rule filter_rel) (simp add: same_slot_def)
    then have "list_all2 same_slot (order_by_created_at_desc (filter (\<lambda>p. server p = srv) (profiles d)))
       (order_by_created_at_desc (filter (\<lambda>p. server p = srv) (profiles ?d')))"
      by (rule order_rel) (simp add: same_slot_def)
    then have "list_all2 same_slot (list_profiles srv lim off d) (list_profiles srv lim off ?d')"
      unfolding list_profiles_def by (rule limit_offset_rel)
    then have "map tg_id (list_profiles srv lim off d) = map tg_id (list_profiles srv lim off ?d')"
      by (rule rel_map_eq) (simp add: same_slot_def)
    then show ?thesis by (rule sym)
  qed
  show ?thesis using c1 c2 c3 by blast
qed

theorem save_profile_keeps_order_witness:
  "get_profile_by_tg 1
     \<lparr>profiles = [inserted_row 1 (empty_data\<lparr>d_server := Some ''Asia''\<rparr>) ''2024-01-01T00:00:00'',
                  inserted_row 2 (empty_data\<lparr>d_server := Some ''Asia''\<rparr>) ''2024-01-02T00:00:00''],
      likes = []\<rparr>
     = Some (inserted_row 1 (empty_data\<lparr>d_server := Some ''Asia''\<rparr>) ''2024-01-01T00:00:00'')
   \<and> distinct (map tg_id (profiles
     \<lparr>profiles = [inserted_row 1 (empty_data\<lparr>d_server := Some ''Asia''\<rparr>) ''2024-01-01T00:00:00'',
                  inserted_row 2 (empty_data\<lparr>d_server := Some ''Asia''\<rparr>) ''2024-01-02T00:00:00''],
      likes = []\<rparr>))
   \<and> map tg_id (list_profiles ''Asia'' 1 1 (save_profile 1
         (empty_data\<lparr>d_server := Some ''Asia'', d_nickname := Some ''Aether''\<rparr>) ''2024-02-01T00:00:00''
     \<lparr>profiles = [inserted_row 1 (empty_data\<lparr>d_server := Some ''Asia''\<rparr>) ''2024-01-01T00:00:00'',
                  inserted_row 2 (empty_data\<lparr>d_server := Some ''Asia''\<rparr>) ''2024-01-02T00:00:00''],
      likes = []\<rparr>))
     = map tg_id (list_profiles ''Asia'' 1 1
     \<lparr>profiles = [inserted_row 1 (empty_data\<lparr>d_server := Some ''Asia''\<rparr>) ''2024-01-01T00:00:00'',
                  inserted_row 2 (empty_data\<lparr>d_server := Some ''Asia''\<rparr>) ''2024-01-02T00:00:00''],
      likes = []\<rparr>)"
  using save_profile_keeps_order[of 1
     "\<lparr>profiles = [inserted_row 1 (empty_data\<lparr>d_server := Some ''Asia''\<rparr>) ''2024-01-01T00:00:00'',
                  inserted_row 2 (empty_data\<lparr>d_server := Some ''Asia''\<rparr>) ''2024-01-02T00:00:00''],
      likes = []\<rparr>"
     "inserted_row 1 (empty_data\<lparr>d_server := Some ''Asia''\<rparr>) ''2024-01-01T00:00:00''"
     "empty_data\<lparr>d_server := Some ''Asia'', d_nickname := Some ''Aether''\<rparr>" "''2024-02-01T00:00:00''"]
  by (simp add: get_profile_by_tg_def inserted_row_def empty_data_def get_or_empty_def)

lemma save_profile_distinct:
  "distinct (map tg_id (profiles d)) \<Longrightarrow> distinct (map tg_id (profiles (save_profile t dat now d)))"
proof -
  have m: "map (tg_id \<circ> (\<lambda>p. if tg_id p = t then updated_row dat p else p)) ps = map tg_id ps" for ps
    by (induction ps) (simp_all add: updated_row_keeps)
  show "distinct (map tg_id (profiles d)) \<Longrightarrow> ?thesis"
    by (auto simp add: save_profile_def m find_None_iff inserted_row_def)
qed

section \<open>Properties of browsing\<close>

subsection \<open>What the helpers change\<close>

lemma say_fields [simp]:
  "db (say c n w) = db w" "view_contexts (say c n w) = view_contexts w"
  "fsm_state (say c n w) = fsm_state w" "fsm_data (say c n w) = fsm_data w"
  "outbox (say c n w) = outbox w @ [Send c n]"
  by (simp_all add: say_def send_message_def)

lemma send_message_fields [simp]:
  "db (snd (send_message c n w)) = db w" "view_contexts (snd (send_message c n w)) = view_contexts w"
  "fsm_state (snd (send_message c n w)) = fsm_state w" "fsm_data (snd (send_message c n w)) = fsm_data w"
  "outbox (snd (send_message c n w)) = outbox w @ [Send c n]"
  by (simp_all add: send_message_def)

lemma delete_message_fields [simp]:
  "db (delete_message c m w) = db w" "view_contexts (delete_message c m w) = view_contexts w"
  "fsm_state (delete_message c m w) = fsm_state w" "fsm_data (delete_message c m w) = fsm_data w"
  by (simp_all add: delete_message_def)

lemma delete_keyboard_fields [simp]:
  "db (delete_keyboard u c w) = db w" "view_contexts (delete_keyboard u c w) = view_contexts w"
  "fsm_state (delete_keyboard u c w) = fsm_state w" "fsm_data (delete_keyboard u c w) = fsm_data w"
  by (simp_all add: delete_keyboard_def)

lemma answer_callback_query_fields [simp]:
  "db (answer_callback_query n w) = db w" "view_contexts (answer_callback_query n w) = view_contexts w"
  "fsm_state (answer_callback_query n w) = fsm_state w" "fsm_data (answer_callback_query n w) = fsm_data w"
  "outbox (answer_callback_query n w) = outbox w @ [Answer_callback n]"
  by (simp_all add: answer_callback_query_def)

lemma pop_context_fields [simp]:
  "db (pop_context u w) = db w" "view_contexts (pop_context u w) = (view_contexts w)(u := None)"
  "fsm_state (pop_context u w) = fsm_state w" "fsm_data (pop_context u w) = fsm_data w"
  by (simp_all add: pop_context_def)

lemma update_data_fields [simp]:
  "db (update_data u f w) = db w" "view_contexts (update_data u f w) = view_contexts w"
  "fsm_state (update_data u f w) = fsm_state w"
  "fsm_data (update_data u f w) = (fsm_data w)(u := f (fsm_data w u))"
  "outbox (update_data u f w) = outbox w"
  by (simp_all add: update_data_def)

lemma set_state_fields [simp]:
  "db (set_state u st w) = db w" "view_contexts (set_state u st w) = view_contexts w"
  "fsm_state (set_state u st w) = (fsm_state w)(u := Some st)"
  "fsm_data (set_state u st w) = fsm_data w"
  "outbox (set_state u st w) = outbox w"
  by (simp_all add: set_state_def)

lemma finish_fields [simp]:
  "db (finish u w) = db w" "view_contexts (finish u w) = view_contexts w"
  by (simp_all add: finish_def)

lemma count_profiles_nonneg: "0 \<le> count_profiles s d"
  by (simp add: count_profiles_def)

subsection \<open>Rendering a profile\<close>

text \<open>What a render does to the cursor table.\<close>

lemma clamp_offset_range:
  "1 \<le> n \<Longrightarrow> 0 \<le> clamp_offset n off \<and> clamp_offset n off \<le> n - 1"
  by (simp add: clamp_offset_def Let_def)

lemma clamp_offset_id: "0 \<le> off \<Longrightarrow> off < n \<Longrightarrow> clamp_offset n off = off"
  by (simp add: clamp_offset_def)

lemma send_profile_with_actions_empty:
  "count_profiles s (db w) = 0 \<Longrightarrow>
   send_profile_with_actions v s off w = say v Menu (say v (No_profiles s) w)"
  by (simp add: send_profile_with_actions_def)

lemma send_profile_with_actions_none:
  "count_profiles s (db w) \<noteq> 0 \<Longrightarrow>
   list_profiles s 1 (clamp_offset (count_profiles s (db w)) off) (db w) = [] \<Longrightarrow>
   send_profile_with_actions v s off w = say v Load_error w"
  by (simp add: send_profile_with_actions_def Let_def)

lemma send_profile_with_actions_shown:
  "count_profiles s (db w) \<noteq> 0 \<Longrightarrow>
   list_profiles s 1 (clamp_offset (count_profiles s (db w)) off) (db w) = prof # rest \<Longrightarrow>
   view_contexts (send_profile_with_actions v s off w)
     = (view_contexts w)(v \<mapsto>
          \<lparr>ctx_server = s, ctx_offset = clamp_offset (count_profiles s (db w)) off,
           ctx_total = count_profiles s (db w), ctx_owner_id = get_owner_id prof,
           ctx_profile_id = get_owner_id prof,
           ctx_keyboard_message_id = next_message_id w + 1,
           ctx_profile_message_id = next_message_id w\<rparr>)"
  by (simp add: send_profile_with_actions_def Let_def send_message_def delete_message_def
      split: option.split)

lemma send_profile_with_actions_contexts:
  "view_contexts (send_profile_with_actions v s off w) = view_contexts w
   \<or> (\<exists>c. view_contexts (send_profile_with_actions v s off w) = (view_contexts w)(v \<mapsto> c)
          \<and> cursor_ok c \<and> ctx_server c = s \<and> ctx_total c = count_profiles s (db w)
          \<and> ctx_offset c = clamp_offset (count_profiles s (db w)) off)"
proof (cases "count_profiles s (db w) = 0")
  case True
  then show ?thesis by (simp add: send_profile_with_actions_empty)
next
  case False
  then have pos: "1 \<le> count_profiles s (db w)"
    using count_profiles_nonneg[of s "db w"] by simp
  show ?thesis
  proof (cases "list_profiles s 1 (clamp_offset (count_profiles s (db w)) off) (db w)")
    case Nil
    then show ?thesis using False by (simp add: send_profile_with_actions_none)
  next
    case (Cons prof rest)
    show ?thesis
      using clamp_offset_range[OF pos, of off]
      by (intro disjI2 exI[of _ "the (view_contexts (send_profile_with_actions v s off w) v)"])
         (simp add: send_profile_with_actions_shown[OF False Cons] cursor_ok_def)
  qed
qed

lemma send_profile_with_actions_fields [simp]:
  "db (send_profile_with_actions v s off w) = db w"
  "fsm_state (send_profile_with_actions v s off w) = fsm_state w"
  "fsm_data (send_profile_with_actions v s off w) = fsm_data w"
  by (simp_all add: send_profile_with_actions_def Let_def split: list.splits option.splits)

subsection \<open>Cursors stay in range\<close>

lemma cursors_ok_same: "cursors_ok w \<Longrightarrow> view_contexts w' = view_contexts w \<Longrightarrow> cursors_ok w'"
  by (simp add: cursors_ok_def)

lemma cursors_ok_pop: "cursors_ok w \<Longrightarrow> view_contexts w' = (view_contexts w)(u := None) \<Longrightarrow> cursors_ok w'"
  by (simp add: cursors_ok_def)

lemma cursors_ok_put:
  "cursors_ok w \<Longrightarrow> view_contexts w' = (view_contexts w)(u \<mapsto> c) \<Longrightarrow> cursor_ok c \<Longrightarrow> cursors_ok w'"
  by (simp add: cursors_ok_def)

lemma cursors_ok_render:
  assumes "cursors_ok w"
  shows "cursors_ok (send_profile_with_actions v s off w)"
proof -
  from send_profile_with_actions_contexts[of v s off w] show ?thesis
  proof
    assume "view_contexts (send_profile_with_actions v s off w) = view_contexts w"
    with assms show ?thesis by (rule cursors_ok_same)
  next
    assume "\<exists>c. view_contexts (send_profile_with_actions v s off w) = (view_contexts w)(v \<mapsto> c)
          \<and> cursor_ok c \<and> ctx_server c = s \<and> ctx_total c = count_profiles s (db w)
          \<and> ctx_offset c = clamp_offset (count_profiles s (db w)) off"
    then obtain c where "view_contexts (send_profile_with_actions v s off w) = (view_contexts w)(v \<mapsto> c)"
      and "cursor_ok c" by blast
    with assms show ?thesis by (rule cursors_ok_put)
  qed
qed

lemma cursors_ok_end:
  "cursors_ok w \<Longrightarrow> view_contexts w1 = view_contexts w \<Longrightarrow>
   cursors_ok (say u n (pop_context u (delete_keyboard u ctx w1)))"
  by (rule cursors_ok_pop[of w _ u]) simp_all

lemma cursors_ok_like_finish:
  assumes "cursors_ok w"
  shows "cursors_ok (like_finish ins n u ow ctx w)"
proof -
  let ?w1 = "if ins then (if n then say u Like_sent (say ow (Like_notice u) w)
                          else say u Like_not_notified w)
             else say u Like_failed w"
  have v: "view_contexts ?w1 = view_contexts w" by simp
  have ok1: "cursors_ok ?w1" using assms v by (rule cursors_ok_same)
  show ?thesis
    unfolding like_finish_def Let_def
    using cursors_ok_end[OF assms v] cursors_ok_render[OF ok1] by simp
qed

lemma cursors_ok_action:
  assumes "cursors_ok w"
  shows "cursors_ok (handle_action_message cmd u now n w)"
proof (cases "view_contexts w u")
  case None
  then show ?thesis using assms by (simp add: handle_action_message_def cursors_ok_def)
next
  case (Some ctx)
  have say: "cursors_ok (say c m w)" for c m using assms by (simp add: cursors_ok_def)
  have "cursors_ok (w\<lparr>db := d\<rparr>)" for d using assms by (simp add: cursors_ok_def)
  note lf = cursors_ok_like_finish[OF this]
  have upd: "cursors_ok (set_state u st (say c m (update_data u f w)))" for st c m f
    using assms by (simp add: cursors_ok_def)
  show ?thesis
  proof (cases cmd)
    case Like
    then show ?thesis using Some say lf
      by (simp add: handle_action_message_def Let_def split: option.splits)
  next
    case Letter
    then show ?thesis using Some say upd
      by (simp add: handle_action_message_def Let_def split: option.splits)
  next
    case Dislike
    then show ?thesis using Some cursors_ok_end[OF assms refl] cursors_ok_render[OF assms]
      by (simp add: handle_action_message_def Let_def)
  next
    case Stop
    then show ?thesis using Some cursors_ok_end[OF assms refl]
      by (simp add: handle_action_message_def)
  qed
qed

lemma cursors_ok_renew_keyboard: "cursors_ok w \<Longrightarrow> cursors_ok (renew_keyboard u w)"
  by (auto simp add: renew_keyboard_def Let_def cursors_ok_def cursor_ok_def split: option.splits)

lemma cursors_ok_finish: "cursors_ok w \<Longrightarrow> cursors_ok (finish u w)"
  by (simp add: cursors_ok_def)

lemma cursors_ok_say: "cursors_ok w \<Longrightarrow> cursors_ok (say c n w)"
  by (simp add: cursors_ok_def)

lemma cursors_ok_sending:
  "cursors_ok w \<Longrightarrow> cursors_ok (handle_sending_message u text delivered w)"
  by (simp add: handle_sending_message_def Let_def cursors_ok_finish cursors_ok_say
      cursors_ok_renew_keyboard split: option.splits)

lemma length_insort_desc: "length (insort_desc x xs) = Suc (length xs)"
  by (induction xs) simp_all

lemma length_order_by_created_at_desc: "length (order_by_created_at_desc xs) = length xs"
  by (induction xs) (simp_all add: order_by_created_at_desc_def length_insort_desc)

lemma list_profiles_nonempty:
  assumes "0 \<le> off" and "off < count_profiles s d"
  shows "list_profiles s 1 off d \<noteq> []"
proof -
  have "nat off < length (order_by_created_at_desc (filter (\<lambda>p. server p = s) (profiles d)))"
    using assms by (simp add: count_profiles_def length_order_by_created_at_desc)
  then show ?thesis by (simp add: list_profiles_def limit_offset_def)
qed

lemma clamp_offset_min_max: "1 \<le> n \<Longrightarrow> clamp_offset n off = min (max 0 off) (n - 1)"
  by (simp add: clamp_offset_def Let_def)

text \<open>A render on a server that has profiles stores a cursor for the viewer, at the
  requested offset clamped into the range of the count it has just read.\<close>

lemma render_stores:
  assumes "count_profiles s (db w) \<noteq> 0"
  shows "\<exists>c. view_contexts (send_profile_with_actions v s off w) v = Some c
       \<and> ctx_server c = s \<and> ctx_total c = count_profiles s (db w)
       \<and> ctx_offset c = min (max 0 off) (count_profiles s (db w) - 1)
       \<and> 0 \<le> ctx_offset c \<and> ctx_offset c \<le> ctx_total c - 1"
proof -
  have pos: "1 \<le> count_profiles s (db w)"
    using assms count_profiles_nonneg[of s "db w"] by simp
  let ?o = "clamp_offset (count_profiles s (db w)) off"
  have r: "0 \<le> ?o \<and> ?o \<le> count_profiles s (db w) - 1"
    using pos by (rule clamp_offset_range)
  then have "list_profiles s 1 ?o (db w) \<noteq> []"
    by (intro list_profiles_nonempty) simp_all
  then obtain prof rest where l: "list_profiles s 1 ?o (db w) = prof # rest"
    by (cases "list_profiles s 1 ?o (db w)") auto
  show ?thesis
    using send_profile_with_actions_shown[OF assms l, of v] r clamp_offset_min_max[OF pos, of off]
    by simp
qed

lemma render_writes_clamped:
  assumes "view_contexts (send_profile_with_actions v s off w) v \<noteq> view_contexts w v"
  shows "\<exists>c. view_contexts (send_profile_with_actions v s off w) v = Some c
       \<and> 0 \<le> ctx_offset c \<and> ctx_offset c \<le> ctx_total c - 1
       \<and> ctx_total c = count_profiles s (db w)"
proof -
  from send_profile_with_actions_contexts[of v s off w] assms
  obtain c where "view_contexts (send_profile_with_actions v s off w) = (view_contexts w)(v \<mapsto> c)"
    and "cursor_ok c" and "ctx_total c = count_profiles s (db w)" by auto
  then show ?thesis by (simp add: cursor_ok_def)
qed

lemma dislike_at_end:
  "view_contexts w u = Some ctx \<Longrightarrow> ctx_total ctx \<le> ctx_offset ctx + 1 \<Longrightarrow>
   view_contexts (handle_action_message Dislike u now n w) u = None"
  by (simp add: handle_action_message_def Let_def)

lemma like_unfold:
  "view_contexts w u = Some ctx \<Longrightarrow> ctx_owner_id ctx = Some ow \<Longrightarrow> ow \<noteq> 0 \<Longrightarrow> ow \<noteq> u \<Longrightarrow>
   \<not> has_liked u ow (db w) \<Longrightarrow>
   handle_action_message Like u now n w
     = like_finish (fst (add_like u ow now (db w))) n u ow ctx (w\<lparr>db := snd (add_like u ow now (db w))\<rparr>)"
  by (simp add: handle_action_message_def Let_def)

lemma like_finish_at_end:
  "ctx_total ctx \<le> ctx_offset ctx + 1 \<Longrightarrow> view_contexts (like_finish ins n u ow ctx w) u = None"
  by (simp add: like_finish_def Let_def)

lemma count_example2: "count_profiles ''Asia'' (db example_world2) = 2"
  by (simp add: example_world2_def count_profiles_def example_row_def inserted_row_def
      empty_data_def get_or_empty_def)

lemma count_example_europe: "count_profiles ''Europe'' (db example_world2) = 0"
  by (simp add: example_world2_def count_profiles_def example_row_def inserted_row_def
      empty_data_def get_or_empty_def)

text \<open>
  C3: every cursor of the table has its offset in \<open>[0, total - 1]\<close>, and every handler
  that touches the table keeps it so: a render (for any requested offset, also a
  negative one or one beyond the end), the choice of a server, each of the four
  actions, and the letter dialog. A render on a server with profiles stores a cursor
  for the viewer, with the profile count it has just read as total and the requested
  offset clamped into \<open>[0, total - 1]\<close> as offset; a render on a server without
  profiles leaves the cursor table as it is. A Dislike whose offset plus one reaches
  the cursor's total removes the cursor, and so does a Like that gets past its checks
  (an owner other than the viewer, not liked before); the offset is never stored
  beyond the end and never negative.
\<close>

theorem browsing_offset_bounded:
  assumes inv: "cursors_ok w"
  shows "cursors_ok (send_profile_with_actions viewer srv offset w)
       \<and> cursors_ok (process_browse_server viewer data w)
       \<and> cursors_ok (handle_action_message cmd viewer now notified w)
       \<and> cursors_ok (handle_sending_message viewer text delivered w)
       \<and> (count_profiles srv (db w) \<noteq> 0 \<longrightarrow>
            (\<exists>c. view_contexts (send_profile_with_actions viewer srv offset w) viewer = Some c
                 \<and> ctx_server c = srv \<and> ctx_total c = count_profiles srv (db w)
                 \<and> ctx_offset c = min (max 0 offset) (count_profiles srv (db w) - 1)
                 \<and> 0 \<le> ctx_offset c \<and> ctx_offset c \<le> ctx_total c - 1))
       \<and> (count_profiles srv (db w) = 0 \<longrightarrow>
            view_contexts (send_profile_with_actions viewer srv offset w) = view_contexts w)
       \<and> (view_contexts (send_profile_with_actions viewer srv offset w) viewer \<noteq> view_contexts w viewer \<longrightarrow>
            (\<exists>c. view_contexts (send_profile_with_actions viewer srv offset w) viewer = Some c
                 \<and> 0 \<le> ctx_offset c \<and> ctx_offset c \<le> ctx_total c - 1
                 \<and> ctx_total c = count_profiles srv (db w)))
       \<and> (view_contexts w viewer = Some ctx \<and> ctx_total ctx \<le> ctx_offset ctx + 1 \<longrightarrow>
            view_contexts (handle_action_message Dislike viewer now notified w) viewer = None)
       \<and> (view_contexts w viewer = Some ctx \<and> ctx_total ctx \<le> ctx_offset ctx + 1
            \<and> ctx_owner_id ctx = Some owner \<and> owner \<noteq> 0 \<and> owner \<noteq> viewer
            \<and> \<not> has_liked viewer owner (db w) \<longrightarrow>
            view_contexts (handle_action_message Like viewer now notified w) viewer = None)"
proof (intro conjI impI)
  show "cursors_ok (send_profile_with_actions viewer srv offset w)"
    using inv by (rule cursors_ok_render)
  have "cursors_ok (answer_callback_query None w)" using inv by (simp add: cursors_ok_def)
  then show "cursors_ok (process_browse_server viewer data w)"
    unfolding process_browse_server_def by (rule cursors_ok_render)
  show "cursors_ok (handle_action_message cmd viewer now notified w)"
    using inv by (rule cursors_ok_action)
  show "cursors_ok (handle_sending_message viewer text delivered w)"
    using inv by (rule cursors_ok_sending)
next
  assume "count_profiles srv (db w) \<noteq> 0"
  then show "\<exists>c. view_contexts (send_profile_with_actions viewer srv offset w) viewer = Some c
                 \<and> ctx_server c = srv \<and> ctx_total c = count_profiles srv (db w)
                 \<and> ctx_offset c = min (max 0 offset) (count_profiles srv (db w) - 1)
                 \<and> 0 \<le> ctx_offset c \<and> ctx_offset c \<le> ctx_total c - 1"
    by (rule render_stores)
next
  assume "count_profiles srv (db w) = 0"
  then show "view_contexts (send_profile_with_actions viewer srv offset w) = view_contexts w"
    by (simp add: send_profile_with_actions_empty)
next
  assume "view_contexts (send_profile_with_actions viewer srv offset w) viewer \<noteq> view_contexts w viewer"
  then show "\<exists>c. view_contexts (send_profile_with_actions viewer srv offset w) viewer = Some c
                 \<and> 0 \<le> ctx_offset c \<and> ctx_offset c \<le> ctx_total c - 1
                 \<and> ctx_total c = count_profiles srv (db w)"
    by (rule render_writes_clamped)
next
  assume "view_contexts w viewer = Some ctx \<and> ctx_total ctx \<le> ctx_offset ctx + 1"
  then show "view_contexts (handle_action_message Dislike viewer now notified w) viewer = None"
    by (simp add: dislike_at_end)
next
  assume "view_contexts w viewer = Some ctx \<and> ctx_total ctx \<le> ctx_offset ctx + 1
            \<and> ctx_owner_id ctx = Some owner \<and> owner \<noteq> 0 \<and> owner \<noteq> viewer
            \<and> \<not> has_liked viewer owner (db w)"
  then show "view_contexts (handle_action_message Like viewer now notified w) viewer = None"
    by (simp add: like_unfold like_finish_at_end)
qed

theorem browsing_offset_bounded_witness:
  "cursors_ok example_world
   \<and> view_contexts (handle_action_message Dislike 2 ''2024-01-03T00:00:00'' True example_world) 2 = None
   \<and> view_contexts (handle_action_message Like 2 ''2024-01-03T00:00:00'' True example_world) 2 = None
   \<and> cursors_ok example_world2 \<and> count_profiles ''Asia'' (db example_world2) \<noteq> 0
   \<and> (\<exists>c. view_contexts (send_profile_with_actions 2 ''Asia'' 7 example_world2) 2 = Some c
          \<and> ctx_offset c = 1 \<and> ctx_total c = 2)
   \<and> (\<exists>c. view_contexts (send_profile_with_actions 2 ''Asia'' (- 3) example_world2) 2 = Some c
          \<and> ctx_offset c = 0 \<and> ctx_total c = 2)
   \<and> count_profiles ''Europe'' (db example_world2) = 0
   \<and> view_contexts (send_profile_with_actions 2 ''Europe'' 0 example_world2)
       = view_contexts example_world2"
proof -
  have inv: "cursors_ok example_world"
    by (simp add: cursors_ok_def cursor_ok_def example_world_def example_ctx_def)
  have inv2: "cursors_ok example_world2"
    by (simp add: cursors_ok_def cursor_ok_def example_world2_def example_ctx2_def example_ctx_def)
  have cur: "view_contexts example_world 2 = Some example_ctx"
    by (simp add: example_world_def)
  have last: "ctx_total example_ctx \<le> ctx_offset example_ctx + 1"
    by (simp add: example_ctx_def)
  have own: "ctx_owner_id example_ctx = Some 1" by (simp add: example_ctx_def)
  have fresh: "\<not> has_liked 2 1 (db example_world)"
    by (simp add: has_liked_def example_world_def)
  have ne: "count_profiles ''Asia'' (db example_world2) \<noteq> 0" by (simp add: count_example2)
  note t = browsing_offset_bounded[OF inv, of 2 "''Asia''" 0 "''browse_server:Asia''" Dislike
      "''2024-01-03T00:00:00''" True "''hello''" True example_ctx 1]
  note t7 = browsing_offset_bounded[OF inv2, of 2 "''Asia''" 7 "''browse_server:Asia''" Dislike
      "''2024-01-03T00:00:00''" True "''hello''" True example_ctx 1]
  note t3 = browsing_offset_bounded[OF inv2, of 2 "''Asia''" "- 3" "''browse_server:Asia''" Dislike
      "''2024-01-03T00:00:00''" True "''hello''" True example_ctx 1]
  note te = browsing_offset_bounded[OF inv2, of 2 "''Europe''" 0 "''browse_server:Asia''" Dislike
      "''2024-01-03T00:00:00''" True "''hello''" True example_ctx 1]
  from t cur last have d: "view_contexts (handle_action_message Dislike 2 ''2024-01-03T00:00:00'' True example_world) 2 = None"
    by blast
  from t cur last own fresh have l: "view_contexts (handle_action_message Like 2 ''2024-01-03T00:00:00'' True example_world) 2 = None"
    by simp
  from t7 ne obtain c where "view_contexts (send_profile_with_actions 2 ''Asia'' 7 example_world2) 2 = Some c"
    and "ctx_total c = count_profiles ''Asia'' (db example_world2)"
    and "ctx_offset c = min (max 0 7) (count_profiles ''Asia'' (db example_world2) - 1)" by blast
  then have r7: "\<exists>c. view_contexts (send_profile_with_actions 2 ''Asia'' 7 example_world2) 2 = Some c
          \<and> ctx_offset c = 1 \<and> ctx_total c = 2"
    by (simp add: count_example2)
  from t3 ne obtain c where "view_contexts (send_profile_with_actions 2 ''Asia'' (- 3) example_world2) 2 = Some c"
    and "ctx_total c = count_profiles ''Asia'' (db example_world2)"
    and "ctx_offset c = min (max 0 (- 3)) (count_profiles ''Asia'' (db example_world2) - 1)" by blast
  then have r3: "\<exists>c. view_contexts (send_profile_with_actions 2 ''Asia'' (- 3) example_world2) 2 = Some c
          \<and> ctx_offset c = 0 \<and> ctx_total c = 2"
    by (simp add: count_example2)
  from te count_example_europe
  have e: "view_contexts (send_profile_with_actions 2 ''Europe'' 0 example_world2)
       = view_contexts example_world2" by blast
  show ?thesis using inv d l inv2 ne r7 r3 count_example_europe e by blast
qed

subsection \<open>Own profile, empty server\<close>

text \<open>
  C7: when the owner recorded in the viewer's cursor is the viewer, the Like action
  and the Letter action only send the refusal: the store, the cursor table, the dialog
  state and the dialog data are what they were.
\<close>

theorem own_profile_rejected:
  assumes cur: "view_contexts w user = Some ctx"
    and own: "ctx_owner_id ctx = Some user"
  shows "db (handle_action_message Like user now notified w) = db w
       \<and> view_contexts (handle_action_message Like user now notified w) = view_contexts w
       \<and> fsm_state (handle_action_message Like user now notified w) = fsm_state w
       \<and> fsm_data (handle_action_message Like user now notified w) = fsm_data w
       \<and> outbox (handle_action_message Like user now notified w)
           = outbox w @ [Send user (if user = 0 then Like_no_owner else Like_own_profile)]
       \<and> db (handle_action_message Letter user now notified w) = db w
       \<and> view_contexts (handle_action_message Letter user now notified w) = view_contexts w
       \<and> fsm_state (handle_action_message Letter user now notified w) = fsm_state w
       \<and> fsm_data (handle_action_message Letter user now notified w) = fsm_data w
       \<and> outbox (handle_action_message Letter user now notified w) = outbox w @ [Send user Letter_self]"
proof -
  have like: "handle_action_message Like user now notified w
      = say user (if user = 0 then Like_no_owner else Like_own_profile) w"
    using cur own by (simp add: handle_action_message_def)
  have letter: "handle_action_message Letter user now notified w = say user Letter_self w"
    using cur own by (simp add: handle_action_message_def)
  show ?thesis unfolding like letter by simp
qed

theorem own_profile_rejected_witness:
  "view_contexts (example_world\<lparr>view_contexts := [1 \<mapsto> example_ctx]\<rparr>) 1 = Some example_ctx
   \<and> ctx_owner_id example_ctx = Some 1
   \<and> db (handle_action_message Like 1 ''2024-01-03T00:00:00'' True
            (example_world\<lparr>view_contexts := [1 \<mapsto> example_ctx]\<rparr>))
       = db (example_world\<lparr>view_contexts := [1 \<mapsto> example_ctx]\<rparr>)
   \<and> outbox (handle_action_message Letter 1 ''2024-01-03T00:00:00'' True
            (example_world\<lparr>view_contexts := [1 \<mapsto> example_ctx]\<rparr>))
       = outbox (example_world\<lparr>view_contexts := [1 \<mapsto> example_ctx]\<rparr>) @ [Send 1 Letter_self]"
proof -
  have cur: "view_contexts (example_world\<lparr>view_contexts := [1 \<mapsto> example_ctx]\<rparr>) 1 = Some example_ctx"
    by simp
  have own: "ctx_owner_id example_ctx = Some 1" by (simp add: example_ctx_def)
  from own_profile_rejected[OF cur own, of "''2024-01-03T00:00:00''" True] cur own
  show ?thesis by blast
qed

text \<open>
  C9: a viewer who holds a cursor and selects a server without profiles gets the
  callback acknowledged, the "no profiles" notice and the menu; the cursor table and
  the store are untouched, so the viewer's cursor is still the old one, and a later
  Dislike or Stop works on it (on its server and offset, not on the server just chosen).
\<close>

theorem empty_server_keeps_cursor:
  assumes cur: "view_contexts w user = Some ctx"
    and none: "count_profiles (after_colon data) (db w) = 0"
  shows "view_contexts (process_browse_server user data w) = view_contexts w
       \<and> view_contexts (process_browse_server user data w) user = Some ctx
       \<and> db (process_browse_server user data w) = db w
       \<and> outbox (process_browse_server user data w)
           = outbox w @ [Answer_callback None, Send user (No_profiles (after_colon data)), Send user Menu]
       \<and> handle_action_message Dislike user now notified (process_browse_server user data w)
           = (if ctx_offset ctx + 1 \<ge> ctx_total ctx
              then say user Last_profile (pop_context user (delete_keyboard user ctx
                     (process_browse_server user data w)))
              else send_profile_with_actions user (ctx_server ctx) (ctx_offset ctx + 1)
                     (process_browse_server user data w))
       \<and> view_contexts (handle_action_message Stop user now notified
            (process_browse_server user data w)) user = None"
proof -
  have eq: "process_browse_server user data w
      = say user Menu (say user (No_profiles (after_colon data)) (answer_callback_query None w))"
    using none by (simp add: process_browse_server_def send_profile_with_actions_empty)
  have v: "view_contexts (process_browse_server user data w) = view_contexts w"
    unfolding eq by simp
  have c: "view_contexts (process_browse_server user data w) user = Some ctx"
    using v cur by simp
  have d: "db (process_browse_server user data w) = db w" unfolding eq by simp
  have out: "outbox (process_browse_server user data w)
           = outbox w @ [Answer_callback None, Send user (No_profiles (after_colon data)), Send user Menu]"
    unfolding eq by simp
  have dis: "handle_action_message Dislike user now notified (process_browse_server user data w)
           = (if ctx_offset ctx + 1 \<ge> ctx_total ctx
              then say user Last_profile (pop_context user (delete_keyboard user ctx
                     (process_browse_server user data w)))
              else send_profile_with_actions user (ctx_server ctx) (ctx_offset ctx + 1)
                     (process_browse_server user data w))"
    using c by (simp add: handle_action_message_def Let_def)
  have stop: "view_contexts (handle_action_message Stop user now notified
            (process_browse_server user data w)) user = None"
    using c by (simp add: handle_action_message_def)
  show ?thesis using v c d out dis stop by blast
qed

lemma after_colon_example: "after_colon ''browse_server:Europe'' = ''Europe''"
  by (simp add: after_colon_def)

theorem empty_server_keeps_cursor_witness:
  "view_contexts example_world 2 = Some example_ctx
   \<and> count_profiles (after_colon ''browse_server:Europe'') (db example_world) = 0
   \<and> view_contexts (process_browse_server 2 ''browse_server:Europe'' example_world) 2 = Some example_ctx
   \<and> outbox (process_browse_server 2 ''browse_server:Europe'' example_world)
       = outbox example_world @ [Answer_callback None, Send 2 (No_profiles (after_colon ''browse_server:Europe'')), Send 2 Menu]"
proof -
  have cur: "view_contexts example_world 2 = Some example_ctx" by (simp add: example_world_def)
  have none: "count_profiles (after_colon ''browse_server:Europe'') (db example_world) = 0"
    by (simp add: after_colon_example count_profiles_def example_world_def example_row_def
        inserted_row_def empty_data_def get_or_empty_def)
  from empty_server_keeps_cursor[OF cur none, of "''2024-01-03T00:00:00''" True] cur none
  show ?thesis by blast
qed

subsection \<open>Like moves on whatever the insert reports\<close>

lemma count_profiles_cong: "profiles d = profiles d' \<Longrightarrow> count_profiles s d = count_profiles s d'"
  by (simp add: count_profiles_def)

lemma list_profiles_cong: "profiles d = profiles d' \<Longrightarrow> list_profiles s l off d = list_profiles s l off d'"
  by (simp add: list_profiles_def)

lemma cursor_position_same:
  "view_contexts w = view_contexts w' \<Longrightarrow> cursor_position w = cursor_position w'"
  by (simp add: cursor_position_def fun_eq_iff)

text \<open>Where a render leaves the viewer depends on the profiles table and on the cursors only.\<close>

lemma cursor_position_render:
  assumes p: "profiles (db w) = profiles (db w')" and v: "view_contexts w = view_contexts w'"
  shows "cursor_position (send_profile_with_actions u s off w)
       = cursor_position (send_profile_with_actions u s off w')"
proof (cases "count_profiles s (db w) = 0")
  case True
  then have "count_profiles s (db w') = 0" using count_profiles_cong[OF p, of s] by simp
  with True show ?thesis
    by (simp add: send_profile_with_actions_empty cursor_position_def fun_eq_iff v)
next
  case False
  then have f': "count_profiles s (db w') \<noteq> 0" using count_profiles_cong[OF p, of s] by simp
  have c: "count_profiles s (db w') = count_profiles s (db w)"
    using count_profiles_cong[OF p, of s] by simp
  show ?thesis
  proof (cases "list_profiles s 1 (clamp_offset (count_profiles s (db w)) off) (db w)")
    case Nil
    then have "list_profiles s 1 (clamp_offset (count_profiles s (db w')) off) (db w') = []"
      using list_profiles_cong[OF p] c by simp
    with Nil False f' show ?thesis
      by (simp add: send_profile_with_actions_none cursor_position_def fun_eq_iff v)
  next
    case (Cons prof rest)
    then have "list_profiles s 1 (clamp_offset (count_profiles s (db w')) off) (db w') = prof # rest"
      using list_profiles_cong[OF p] c by simp
    from send_profile_with_actions_shown[OF False Cons, of u]
         send_profile_with_actions_shown[OF f' this, of u]
    show ?thesis by (simp add: cursor_position_def fun_eq_iff v c)
  qed
qed

lemma like_finish_position:
  "cursor_position (like_finish ins n u ow ctx w)
     = (if ctx_total ctx \<le> ctx_offset ctx + 1 then (cursor_position w)(u := None)
        else cursor_position (send_profile_with_actions u (ctx_server ctx) (ctx_offset ctx + 1) w))"
proof (cases "ctx_total ctx \<le> ctx_offset ctx + 1")
  case True
  then show ?thesis by (simp add: like_finish_def Let_def cursor_position_def fun_eq_iff)
next
  case False
  let ?w1 = "if ins then (if n then say u Like_sent (say ow (Like_notice u) w)
                          else say u Like_not_notified w)
             else say u Like_failed w"
  have "cursor_position (send_profile_with_actions u (ctx_server ctx) (ctx_offset ctx + 1) ?w1)
      = cursor_position (send_profile_with_actions u (ctx_server ctx) (ctx_offset ctx + 1) w)"
    by (rule cursor_position_render) simp_all
  then show ?thesis using False by (simp add: like_finish_def Let_def)
qed

lemma like_finish_next:
  assumes "0 \<le> ctx_offset ctx" and "ctx_offset ctx + 1 < ctx_total ctx"
    and "ctx_offset ctx + 1 < count_profiles (ctx_server ctx) (db w)"
  shows "\<exists>c. view_contexts (like_finish ins n u ow ctx w) u = Some c
            \<and> ctx_server c = ctx_server ctx \<and> ctx_offset c = ctx_offset ctx + 1"
proof -
  let ?w1 = "if ins then (if n then say u Like_sent (say ow (Like_notice u) w)
                          else say u Like_not_notified w)
             else say u Like_failed w"
  let ?s = "ctx_server ctx" and ?o = "ctx_offset ctx + 1"
  have d: "db ?w1 = db w" by simp
  have ne: "count_profiles ?s (db ?w1) \<noteq> 0" using assms by (simp add: d)
  have cl: "clamp_offset (count_profiles ?s (db ?w1)) ?o = ?o"
    using assms by (simp add: d clamp_offset_id)
  have "list_profiles ?s 1 ?o (db ?w1) \<noteq> []"
    using assms by (intro list_profiles_nonempty) (simp_all add: d)
  then obtain prof rest where l: "list_profiles ?s 1 (clamp_offset (count_profiles ?s (db ?w1)) ?o) (db ?w1) = prof # rest"
    unfolding cl by (cases "list_profiles ?s 1 ?o (db ?w1)") auto
  have lf: "like_finish ins n u ow ctx w = send_profile_with_actions u ?s ?o ?w1"
    using assms by (simp add: like_finish_def Let_def)
  show ?thesis
    unfolding lf using send_profile_with_actions_shown[OF ne l, of u] cl by simp
qed

lemma like_finish_render:
  assumes "ctx_offset ctx + 1 < ctx_total ctx"
  shows "\<exists>w1. like_finish ins n u ow ctx w
            = send_profile_with_actions u (ctx_server ctx) (ctx_offset ctx + 1) w1
          \<and> db w1 = db w \<and> view_contexts w1 = view_contexts w"
proof -
  let ?w1 = "if ins then (if n then say u Like_sent (say ow (Like_notice u) w)
                          else say u Like_not_notified w)
             else say u Like_failed w"
  have "like_finish ins n u ow ctx w
      = send_profile_with_actions u (ctx_server ctx) (ctx_offset ctx + 1) ?w1"
    using assms by (simp add: like_finish_def Let_def)
  moreover have "db ?w1 = db w \<and> view_contexts ?w1 = view_contexts w" by simp
  ultimately show ?thesis by blast
qed

lemma like_finish_clamped:
  assumes "ctx_offset ctx + 1 < ctx_total ctx"
    and "count_profiles (ctx_server ctx) (db w) \<noteq> 0"
  shows "\<exists>c. view_contexts (like_finish ins n u ow ctx w) u = Some c
       \<and> ctx_server c = ctx_server ctx
       \<and> ctx_total c = count_profiles (ctx_server ctx) (db w)
       \<and> ctx_offset c = min (max 0 (ctx_offset ctx + 1)) (count_profiles (ctx_server ctx) (db w) - 1)"
proof -
  from like_finish_render[OF assms(1), of ins n u ow w]
  obtain w1 where lf: "like_finish ins n u ow ctx w
            = send_profile_with_actions u (ctx_server ctx) (ctx_offset ctx + 1) w1"
    and d: "db w1 = db w" by blast
  have "count_profiles (ctx_server ctx) (db w1) \<noteq> 0" using assms(2) by (simp add: d)
  from render_stores[OF this, of u "ctx_offset ctx + 1"] show ?thesis
    unfolding lf d by blast
qed

lemma like_finish_no_profiles:
  assumes "ctx_offset ctx + 1 < ctx_total ctx"
    and "count_profiles (ctx_server ctx) (db w) = 0"
  shows "view_contexts (like_finish ins n u ow ctx w) = view_contexts w"
proof -
  from like_finish_render[OF assms(1), of ins n u ow w]
  obtain w1 where lf: "like_finish ins n u ow ctx w
            = send_profile_with_actions u (ctx_server ctx) (ctx_offset ctx + 1) w1"
    and d: "db w1 = db w" and v: "view_contexts w1 = view_contexts w" by blast
  have "count_profiles (ctx_server ctx) (db w1) = 0" using assms(2) by (simp add: d)
  then show ?thesis unfolding lf by (simp add: send_profile_with_actions_empty v)
qed

lemma count_example3: "count_profiles ''Asia'' (db example_world3) = 1"
  "count_profiles ''Europe'' (db example_world3) = 0"
  by (simp_all add: example_world3_def example_world_def count_profiles_def example_row_def
      inserted_row_def empty_data_def get_or_empty_def)

lemma example_ctx3_fields:
  "ctx_offset example_ctx3 = 0" "ctx_total example_ctx3 = 3" "ctx_server example_ctx3 = ''Asia''"
  "ctx_owner_id example_ctx3 = Some 4"
  by (simp_all add: example_ctx3_def example_ctx_def)

text \<open>
  C8 (amended): from the result of the insert on, the Like action does the same to the
  cursor whether the insert reported \<open>True\<close> or \<open>False\<close> (and whatever the likes table
  holds): it goes on with offset plus one. If that reaches the cursor's total the
  cursor is removed. Otherwise the next profile is rendered: on a server that still has
  profiles the new cursor holds the profile count read at that moment as total and
  offset plus one clamped into \<open>[0, count - 1]\<close> as offset, which is exactly offset
  plus one whenever the server still has more than offset plus one profiles; on a
  server without profiles the cursor table is left as it is. The Like handler reaches
  this point whenever the owner is known, is not the viewer and has not been liked
  before.
\<close>

theorem like_advances_regardless:
  "(profiles (db w) = profiles (db w') \<and> view_contexts w = view_contexts w' \<longrightarrow>
      cursor_position (like_finish True n user owner ctx w)
        = cursor_position (like_finish False n' user owner ctx w'))
   \<and> (ctx_total ctx \<le> ctx_offset ctx + 1 \<longrightarrow>
        view_contexts (like_finish inserted n user owner ctx w) user = None)
   \<and> (ctx_offset ctx + 1 < ctx_total ctx \<and> count_profiles (ctx_server ctx) (db w) \<noteq> 0 \<longrightarrow>
        (\<exists>c. view_contexts (like_finish inserted n user owner ctx w) user = Some c
              \<and> ctx_server c = ctx_server ctx
              \<and> ctx_total c = count_profiles (ctx_server ctx) (db w)
              \<and> ctx_offset c
                  = min (max 0 (ctx_offset ctx + 1)) (count_profiles (ctx_server ctx) (db w) - 1)))
   \<and> (ctx_offset ctx + 1 < ctx_total ctx \<and> count_profiles (ctx_server ctx) (db w) = 0 \<longrightarrow>
        view_contexts (like_finish inserted n user owner ctx w) = view_contexts w)
   \<and> (0 \<le> ctx_offset ctx \<and> ctx_offset ctx + 1 < ctx_total ctx
        \<and> ctx_offset ctx + 1 < count_profiles (ctx_server ctx) (db w) \<longrightarrow>
        (\<exists>c. view_contexts (like_finish inserted n user owner ctx w) user = Some c
              \<and> ctx_server c = ctx_server ctx \<and> ctx_offset c = ctx_offset ctx + 1))
   \<and> (view_contexts w user = Some ctx \<and> ctx_owner_id ctx = Some owner \<and> owner \<noteq> 0
        \<and> owner \<noteq> user \<and> \<not> has_liked user owner (db w) \<longrightarrow>
        handle_action_message Like user now n w
          = like_finish (fst (add_like user owner now (db w))) n user owner ctx
              (w\<lparr>db := snd (add_like user owner now (db w))\<rparr>))"
proof (intro conjI impI)
  assume a: "profiles (db w) = profiles (db w') \<and> view_contexts w = view_contexts w'"
  then have "cursor_position (send_profile_with_actions user (ctx_server ctx) (ctx_offset ctx + 1) w)
      = cursor_position (send_profile_with_actions user (ctx_server ctx) (ctx_offset ctx + 1) w')"
    by (intro cursor_position_render) simp_all
  moreover have "cursor_position w = cursor_position w'"
    using a by (intro cursor_position_same) simp
  ultimately show "cursor_position (like_finish True n user owner ctx w)
        = cursor_position (like_finish False n' user owner ctx w')"
    by (simp add: like_finish_position)
next
  assume "ctx_total ctx \<le> ctx_offset ctx + 1"
  then show "view_contexts (like_finish inserted n user owner ctx w) user = None"
    by (rule like_finish_at_end)
next
  assume "ctx_offset ctx + 1 < ctx_total ctx \<and> count_profiles (ctx_server ctx) (db w) \<noteq> 0"
  then show "\<exists>c. view_contexts (like_finish inserted n user owner ctx w) user = Some c
              \<and> ctx_server c = ctx_server ctx
              \<and> ctx_total c = count_profiles (ctx_server ctx) (db w)
              \<and> ctx_offset c
                  = min (max 0 (ctx_offset ctx + 1)) (count_profiles (ctx_server ctx) (db w) - 1)"
    by (intro like_finish_clamped) simp_all
next
  assume "ctx_offset ctx + 1 < ctx_total ctx \<and> count_profiles (ctx_server ctx) (db w) = 0"
  then show "view_contexts (like_finish inserted n user owner ctx w) = view_contexts w"
    by (intro like_finish_no_profiles) simp_all
next
  assume "0 \<le> ctx_offset ctx \<and> ctx_offset ctx + 1 < ctx_total ctx
        \<and> ctx_offset ctx + 1 < count_profiles (ctx_server ctx) (db w)"
  then show "\<exists>c. view_contexts (like_finish inserted n user owner ctx w) user = Some c
              \<and> ctx_server c = ctx_server ctx \<and> ctx_offset c = ctx_offset ctx + 1"
    by (intro like_finish_next) simp_all
next
  assume "view_contexts w user = Some ctx \<and> ctx_owner_id ctx = Some owner \<and> owner \<noteq> 0
        \<and> owner \<noteq> user \<and> \<not> has_liked user owner (db w)"
  then show "handle_action_message Like user now n w
          = like_finish (fst (add_like user owner now (db w))) n user owner ctx
              (w\<lparr>db := snd (add_like user owner now (db w))\<rparr>)"
    by (intro like_unfold) simp_all
qed

theorem like_advances_regardless_witness:
  "(0 \<le> ctx_offset example_ctx2 \<and> ctx_offset example_ctx2 + 1 < ctx_total example_ctx2
     \<and> ctx_offset example_ctx2 + 1 < count_profiles (ctx_server example_ctx2) (db example_world2))
   \<and> (\<exists>c. view_contexts (like_finish False True 2 3 example_ctx2 example_world2) 2 = Some c
          \<and> ctx_server c = ctx_server example_ctx2 \<and> ctx_offset c = ctx_offset example_ctx2 + 1)
   \<and> ctx_total example_ctx \<le> ctx_offset example_ctx + 1
   \<and> view_contexts (like_finish False True 2 1 example_ctx example_world) 2 = None
   \<and> cursor_position (like_finish True True 2 3 example_ctx2 example_world2)
       = cursor_position (like_finish False True 2 3 example_ctx2 example_world2)
   \<and> (view_contexts example_world 2 = Some example_ctx \<and> ctx_owner_id example_ctx = Some 1
        \<and> (1::int) \<noteq> 0 \<and> (1::int) \<noteq> 2 \<and> \<not> has_liked 2 1 (db example_world))
   \<and> handle_action_message Like 2 ''2024-01-03T00:00:00'' True example_world
       = like_finish (fst (add_like 2 1 ''2024-01-03T00:00:00'' (db example_world))) True 2 1 example_ctx
           (example_world\<lparr>db := snd (add_like 2 1 ''2024-01-03T00:00:00'' (db example_world))\<rparr>)
   \<and> (ctx_offset example_ctx3 + 1 < ctx_total example_ctx3
        \<and> count_profiles (ctx_server example_ctx3) (db example_world3) \<noteq> 0)
   \<and> (\<exists>c. view_contexts (like_finish False True 2 4 example_ctx3 example_world3) 2 = Some c
          \<and> ctx_total c = 1 \<and> ctx_offset c = 0)
   \<and> (ctx_offset (example_ctx3\<lparr>ctx_server := ''Europe''\<rparr>) + 1
          < ctx_total (example_ctx3\<lparr>ctx_server := ''Europe''\<rparr>)
        \<and> count_profiles (ctx_server (example_ctx3\<lparr>ctx_server := ''Europe''\<rparr>)) (db example_world3) = 0)
   \<and> view_contexts (like_finish False True 2 4 (example_ctx3\<lparr>ctx_server := ''Europe''\<rparr>) example_world3)
       = view_contexts example_world3"
proof -
  have h: "0 \<le> ctx_offset example_ctx2 \<and> ctx_offset example_ctx2 + 1 < ctx_total example_ctx2
     \<and> ctx_offset example_ctx2 + 1 < count_profiles (ctx_server example_ctx2) (db example_world2)"
    by (simp add: example_ctx2_def example_ctx_def example_world2_def count_profiles_def
        example_row_def inserted_row_def empty_data_def get_or_empty_def)
  have e: "ctx_total example_ctx \<le> ctx_offset example_ctx + 1" by (simp add: example_ctx_def)
  note t2 = like_advances_regardless[of example_world2 example_world2 True 2 3 example_ctx2 True False
      "''2024-01-03T00:00:00''"]
  note t1 = like_advances_regardless[of example_world example_world True 2 1 example_ctx True False
      "''2024-01-03T00:00:00''"]
  note t3 = like_advances_regardless[of example_world3 example_world3 True 2 4 example_ctx3 True False
      "''2024-01-03T00:00:00''"]
  note t4 = like_advances_regardless[of example_world3 example_world3 True 2 4
      "example_ctx3\<lparr>ctx_server := ''Europe''\<rparr>" True False "''2024-01-03T00:00:00''"]
  from t2 h have a: "\<exists>c. view_contexts (like_finish False True 2 3 example_ctx2 example_world2) 2 = Some c
          \<and> ctx_server c = ctx_server example_ctx2 \<and> ctx_offset c = ctx_offset example_ctx2 + 1"
    by blast
  from t1 e have b: "view_contexts (like_finish False True 2 1 example_ctx example_world) 2 = None"
    by blast
  from t2 have c: "cursor_position (like_finish True True 2 3 example_ctx2 example_world2)
       = cursor_position (like_finish False True 2 3 example_ctx2 example_world2)"
    by blast
  have k: "view_contexts example_world 2 = Some example_ctx \<and> ctx_owner_id example_ctx = Some 1
        \<and> (1::int) \<noteq> 0 \<and> (1::int) \<noteq> 2 \<and> \<not> has_liked 2 1 (db example_world)"
    by (simp add: example_world_def example_ctx_def has_liked_def)
  from t1 k have l: "handle_action_message Like 2 ''2024-01-03T00:00:00'' True example_world
       = like_finish (fst (add_like 2 1 ''2024-01-03T00:00:00'' (db example_world))) True 2 1 example_ctx
           (example_world\<lparr>db := snd (add_like 2 1 ''2024-01-03T00:00:00'' (db example_world))\<rparr>)"
    by blast
  have h3: "ctx_offset example_ctx3 + 1 < ctx_total example_ctx3
        \<and> count_profiles (ctx_server example_ctx3) (db example_world3) \<noteq> 0"
    by (simp add: example_ctx3_fields count_example3)
  from t3 h3 obtain c3 where "view_contexts (like_finish False True 2 4 example_ctx3 example_world3) 2 = Some c3"
    and "ctx_total c3 = count_profiles (ctx_server example_ctx3) (db example_world3)"
    and "ctx_offset c3 = min (max 0 (ctx_offset example_ctx3 + 1))
           (count_profiles (ctx_server example_ctx3) (db example_world3) - 1)"
    by blast
  then have m: "\<exists>c. view_contexts (like_finish False True 2 4 example_ctx3 example_world3) 2 = Some c
          \<and> ctx_total c = 1 \<and> ctx_offset c = 0"
    by (simp add: example_ctx3_fields count_example3)
  have h4: "ctx_offset (example_ctx3\<lparr>ctx_server := ''Europe''\<rparr>) + 1
          < ctx_total (example_ctx3\<lparr>ctx_server := ''Europe''\<rparr>)
        \<and> count_profiles (ctx_server (example_ctx3\<lparr>ctx_server := ''Europe''\<rparr>)) (db example_world3) = 0"
    by (simp add: example_ctx3_fields count_example3)
  from t4 h4 have q: "view_contexts (like_finish False True 2 4 (example_ctx3\<lparr>ctx_server := ''Europe''\<rparr>) example_world3)
       = view_contexts example_world3"
    by blast
  show ?thesis using h a e b c k l h3 m h4 q by blast
qed

text \<open>
  The claim as it was stated, that the offset advances by exactly one, fails where the
  server has lost profiles since the cursor was made: viewer 2 stands at offset 0 of 3,
  one profile is left, no like of owner 4 exists; after the Like the cursor stands at
  offset 0 again.
\<close>

theorem like_advances_counterexample:
  "view_contexts example_world3 2 = Some example_ctx3
   \<and> ctx_offset example_ctx3 = 0
   \<and> ctx_owner_id example_ctx3 = Some 4
   \<and> \<not> has_liked 2 4 (db example_world3)
   \<and> map_option ctx_offset
        (view_contexts (handle_action_message Like 2 ''2024-01-03T00:00:00'' True example_world3) 2)
       = Some 0
   \<and> map_option ctx_offset
        (view_contexts (handle_action_message Like 2 ''2024-01-03T00:00:00'' True example_world3) 2)
       \<noteq> Some (ctx_offset example_ctx3 + 1)"
proof -
  let ?now = "''2024-01-03T00:00:00''"
  let ?w = "example_world3\<lparr>db := snd (add_like 2 4 ?now (db example_world3))\<rparr>"
  have cur: "view_contexts example_world3 2 = Some example_ctx3"
    by (simp add: example_world3_def)
  have fresh: "\<not> has_liked 2 4 (db example_world3)"
    by (simp add: has_liked_def example_world3_def example_world_def)
  have un: "handle_action_message Like 2 ?now True example_world3
      = like_finish (fst (add_like 2 4 ?now (db example_world3))) True 2 4 example_ctx3 ?w"
    using cur fresh by (intro like_unfold) (simp_all add: example_ctx3_fields)
  have p: "profiles (db ?w) = profiles (db example_world3)"
    using fresh by (simp add: add_like_fresh)
  have cnt: "count_profiles ''Asia'' (db ?w) = 1"
    using count_profiles_cong[OF p, of "''Asia''"] by (simp add: count_example3)
  have "\<exists>c. view_contexts (like_finish (fst (add_like 2 4 ?now (db example_world3))) True 2 4
                example_ctx3 ?w) 2 = Some c
       \<and> ctx_server c = ctx_server example_ctx3
       \<and> ctx_total c = count_profiles (ctx_server example_ctx3) (db ?w)
       \<and> ctx_offset c = min (max 0 (ctx_offset example_ctx3 + 1))
                            (count_profiles (ctx_server example_ctx3) (db ?w) - 1)"
    by (intro like_finish_clamped) (simp_all add: example_ctx3_fields cnt[simplified])
  then obtain c where c: "view_contexts (handle_action_message Like 2 ?now True example_world3) 2 = Some c"
    and o: "ctx_offset c = min (max 0 (ctx_offset example_ctx3 + 1))
                            (count_profiles (ctx_server example_ctx3) (db ?w) - 1)"
    unfolding un by blast
  have "ctx_offset c = 0" using o by (simp add: example_ctx3_fields cnt[simplified])
  then have r: "map_option ctx_offset
        (view_contexts (handle_action_message Like 2 ?now True example_world3) 2) = Some 0"
    by (simp add: c)
  have r2: "map_option ctx_offset
        (view_contexts (handle_action_message Like 2 ?now True example_world3) 2)
       \<noteq> Some (ctx_offset example_ctx3 + 1)"
    unfolding r by (simp add: example_ctx3_fields)
  show ?thesis using cur fresh r r2 example_ctx3_fields(1) example_ctx3_fields(4) by blast
qed

section \<open>Properties of the dialog\<close>

subsection \<open>Texts\<close>

lemma upper_char_idem: "upper_char (upper_char c) = upper_char c"
  by (auto simp add: upper_char_def Let_def)

lemma str_upper_idem: "str_upper (str_upper s) = str_upper s"
  by (simp add: str_upper_def upper_char_idem)

lemma is_space_upper_char: "is_space (upper_char c) = is_space c"
  by (auto simp add: upper_char_def is_space_def Let_def)

lemma upper_char_comma: "upper_char c = CHR '','' \<longleftrightarrow> c = CHR '',''"
proof -
  have "char_of (of_char c - 32 :: nat) \<noteq> CHR '',''" if "97 \<le> (of_char c :: nat)" "(of_char c :: nat) \<le> 122"
  proof
    assume "char_of (of_char c - 32 :: nat) = CHR '',''"
    then have "(of_char (char_of (of_char c - 32 :: nat)) :: nat) = of_char (CHR '','')" by simp
    then show False using that by (simp add: of_char_of)
  qed
  then show ?thesis by (auto simp add: upper_char_def Let_def)
qed

lemma dropWhile_space_upper:
  "dropWhile is_space (str_upper s) = str_upper (dropWhile is_space s)"
  by (induction s) (simp_all add: str_upper_def is_space_upper_char)

lemma str_strip_upper: "str_strip (str_upper s) = str_upper (str_strip s)"
proof -
  have r: "rev (str_upper s) = str_upper (rev s)" for s by (simp add: str_upper_def rev_map)
  show ?thesis by (simp add: str_strip_def dropWhile_space_upper r)
qed

lemma dropWhile_idem: "dropWhile P (dropWhile P xs) = dropWhile P xs"
  by (induction xs) simp_all

lemma last_dropWhile: "dropWhile P xs \<noteq> [] \<Longrightarrow> last (dropWhile P xs) = last xs"
  by (induction xs) (auto split: if_splits)

lemma dropWhile_none: "xs \<noteq> [] \<Longrightarrow> \<not> P (hd xs) \<Longrightarrow> dropWhile P xs = xs"
  by (cases xs) simp_all

text \<open>A stripped text is empty or begins and ends with a character that is no space.\<close>

lemma str_strip_ends:
  assumes "str_strip s \<noteq> []"
  shows "\<not> is_space (hd (str_strip s)) \<and> \<not> is_space (last (str_strip s))"
proof -
  define t where "t = dropWhile is_space s"
  define u where "u = dropWhile is_space (rev t)"
  have s: "str_strip s = rev u" by (simp add: str_strip_def t_def u_def)
  have u: "u \<noteq> []" using assms s by simp
  then have t: "t \<noteq> []" unfolding u_def by auto
  have "\<not> is_space (hd u)" using u unfolding u_def by (rule hd_dropWhile)
  then have l: "\<not> is_space (last (rev u))" using u by (simp add: last_rev)
  have "last u = last (rev t)" using u unfolding u_def by (rule last_dropWhile)
  then have "hd (rev u) = hd t" using u t by (simp add: hd_rev last_rev)
  moreover have "\<not> is_space (hd t)" using t unfolding t_def by (rule hd_dropWhile)
  ultimately show ?thesis using l s by simp
qed

lemma str_strip_fixed:
  assumes "s \<noteq> []" "\<not> is_space (hd s)" "\<not> is_space (last s)"
  shows "str_strip s = s"
proof -
  have a: "dropWhile is_space s = s" using assms by (simp add: dropWhile_none)
  have "rev s \<noteq> []" "\<not> is_space (hd (rev s))" using assms by (simp_all add: hd_rev)
  then have "dropWhile is_space (rev s) = rev s" by (rule dropWhile_none)
  then show ?thesis by (simp add: str_strip_def a)
qed

lemma str_strip_idem: "str_strip (str_strip s) = str_strip s"
proof (cases "str_strip s = []")
  case True
  have "str_strip [] = []" by (simp add: str_strip_def)
  with True show ?thesis by simp
next
  case False
  then show ?thesis using str_strip_ends[OF False] by (intro str_strip_fixed) simp_all
qed

lemma set_str_strip: "set (str_strip s) \<subseteq> set s"
proof -
  have "set (dropWhile P xs) \<subseteq> set xs" for P and xs :: string
    by (auto dest: set_dropWhileD)
  then show ?thesis unfolding str_strip_def
    by (metis (no_types, lifting) dual_order.trans set_rev)
qed

text \<open>Pieces of a split hold no separator; joining and splitting again gives the pieces.\<close>

lemma str_split_nonempty: "str_split sep s \<noteq> []"
  by (induction s) (simp_all split: list.splits)

lemma str_split_no_sep: "p \<in> set (str_split sep s) \<Longrightarrow> sep \<notin> set p"
proof (induction s arbitrary: p)
  case Nil
  then show ?case by simp
next
  case (Cons c cs)
  then show ?case
    by (cases "str_split sep cs") (auto split: if_splits)
qed

lemma str_split_plain: "sep \<notin> set x \<Longrightarrow> str_split sep x = [x]"
  by (induction x) auto

lemma str_split_append:
  "sep \<notin> set x \<Longrightarrow> str_split sep (x @ sep # s) = x # str_split sep s"
  by (induction x) auto

lemma str_join_Cons:
  "str_join sep (x # xs) = (if xs = [] then x else x @ sep @ str_join sep xs)"
  by (cases xs) simp_all

lemma str_split_join:
  "xs \<noteq> [] \<Longrightarrow> list_all (\<lambda>x. sep \<notin> set x) xs \<Longrightarrow> str_split sep (str_join [sep] xs) = xs"
proof (induction xs)
  case Nil
  then show ?case by simp
next
  case (Cons x xs)
  show ?case
  proof (cases "xs = []")
    case True
    then show ?thesis using Cons.prems by (simp add: str_split_plain)
  next
    case False
    then show ?thesis using Cons by (simp add: str_join_Cons str_split_append)
  qed
qed

subsection \<open>Toggling a language\<close>

lemma selected_clean:
  assumes "x \<in> selected_languages raw"
  shows "clean x"
proof -
  from assms obtain p where p: "p \<in> set (str_split CHR '','' raw)" and ne: "str_strip p \<noteq> []"
    and x: "x = str_upper (str_strip p)"
    by (auto simp add: selected_languages_def)
  have "CHR '','' \<notin> set p" using p by (rule str_split_no_sep)
  then have "CHR '','' \<notin> set (str_strip p)" using set_str_strip[of p] by auto
    have c: "CHR '','' \<notin> set x"
  proof
    assume "CHR '','' \<in> set x"
    then obtain ch where "ch \<in> set (str_strip p)" and "upper_char ch = CHR '',''"
      unfolding x str_upper_def by auto
    then have "CHR '','' \<in> set (str_strip p)" by (simp add: upper_char_comma)
    with \<open>CHR '','' \<notin> set (str_strip p)\<close> show False by contradiction
  qed
  have n: "x \<noteq> []" using ne by (simp add: x str_upper_def)
  have s: "str_strip x = x" by (simp add: x str_strip_upper str_strip_idem)
  have u: "str_upper x = x" by (simp add: x str_upper_idem)
  show ?thesis using c n s u by (simp add: clean_def)
qed

lemma codes_clean: "c \<in> set LANG_BUTTONS \<Longrightarrow> clean c"
  by (auto simp add: LANG_BUTTONS_def clean_def str_strip_def str_upper_def is_space_def
      upper_char_def)

lemma selected_join:
  assumes "list_all clean xs"
  shows "selected_languages (str_join '','' xs) = set xs"
proof (cases "xs = []")
  case True
  then show ?thesis by (simp add: selected_languages_def str_strip_def)
next
  case False
  have "list_all (\<lambda>x. CHR '','' \<notin> set x) xs"
    using assms by (simp add: list_all_iff clean_def)
  with False have sp: "str_split CHR '','' (str_join '','' xs) = xs" by (rule str_split_join)
  have f: "filter (\<lambda>p. str_strip p \<noteq> []) xs = xs"
    using assms by (simp add: list_all_iff clean_def filter_id_conv)
  have m: "map (\<lambda>p. str_upper (str_strip p)) xs = xs"
    using assms by (simp add: list_all_iff clean_def map_idI)
  show ?thesis by (simp add: selected_languages_def sp f m)
qed

lemma selected_join_sorted:
  assumes "finite S" and "\<And>x. x \<in> S \<Longrightarrow> clean x"
  shows "selected_languages (str_join '','' (sorted_list_of_set S)) = S"
proof -
  have "list_all clean (sorted_list_of_set S)"
    using assms by (simp add: list_all_iff)
  then have "selected_languages (str_join '','' (sorted_list_of_set S)) = set (sorted_list_of_set S)"
    by (rule selected_join)
  then show ?thesis using assms(1) by simp
qed

lemma finite_selected_languages: "finite (selected_languages raw)"
  by (simp add: selected_languages_def)

lemma after_colon_lang: "after_colon (''lang:'' @ code) = code"
  by (simp add: after_colon_def)

lemma process_lang_toggle_code:
  assumes "code \<in> set LANG_BUTTONS"
  shows "fsm_data (process_lang_toggle user (''lang:'' @ code) m e w)
       = (fsm_data w)(user := (fsm_data w user)\<lparr>d_languages :=
            Some (str_join '','' (sorted_list_of_set
              (if code \<in> working_set w user then working_set w user - {code}
               else insert code (working_set w user))))\<rparr>)"
  unfolding process_lang_toggle_def after_colon_lang Let_def working_set_def
  using assms by simp

lemma toggle_working_set:
  assumes "code \<in> set LANG_BUTTONS"
  shows "working_set (process_lang_toggle user (''lang:'' @ code) m e w) user
       = (if code \<in> working_set w user then working_set w user - {code}
          else insert code (working_set w user))"
proof -
  let ?S = "working_set w user"
  let ?S' = "if code \<in> ?S then ?S - {code} else insert code ?S"
  have fin: "finite ?S'" by (simp add: working_set_def finite_selected_languages)
  have cl: "clean x" if "x \<in> ?S'" for x
    using that selected_clean[of x] codes_clean[OF assms]
    by (auto simp add: working_set_def split: if_splits)
  have d: "d_languages (fsm_data (process_lang_toggle user (''lang:'' @ code) m e w) user)
      = Some (str_join '','' (sorted_list_of_set ?S'))"
    unfolding process_lang_toggle_code[OF assms] by simp
  show ?thesis
    unfolding working_set_def[of "process_lang_toggle user (''lang:'' @ code) m e w"] d
    using selected_join_sorted[OF fin cl] by (simp add: get_or_empty_def)
qed

text \<open>
  C6: for every state of the dialog answers and every code of the catalogue, two
  presses of the code's button, one after the other, leave the working set of
  selected languages (what \<open>process_lang_toggle\<close> reads back from the stored
  \<open>languages\<close> answer) as it was before the first press.
\<close>

theorem toggle_twice:
  assumes "code \<in> set LANG_BUTTONS"
  shows "working_set (process_lang_toggle user (''lang:'' @ code) m2 e2
            (process_lang_toggle user (''lang:'' @ code) m1 e1 w)) user
       = working_set w user"
  unfolding toggle_working_set[OF assms] by auto

theorem toggle_twice_witness:
  "''RU'' \<in> set LANG_BUTTONS
   \<and> working_set (process_lang_toggle 2 (''lang:'' @ ''RU'') 5 True
        (process_lang_toggle 2 (''lang:'' @ ''RU'') 5 True example_world)) 2
     = working_set example_world 2"
proof -
  have h: "''RU'' \<in> set LANG_BUTTONS" by (simp add: LANG_BUTTONS_def)
  from toggle_twice[OF h, of 2 5 True 5 True example_world] h show ?thesis by blast
qed

subsection \<open>Decimal texts\<close>

text \<open>Decimal texts: what \<open>str\<close> writes, \<open>int\<close> reads back.\<close>

lemma of_char_digit_char: "n < 10 \<Longrightarrow> (of_char (digit_char n) :: nat) = 48 + n"
  by (simp add: digit_char_def of_char_of)

lemma digit_char_is_digit: "n < 10 \<Longrightarrow> is_digit (digit_char n)"
  by (simp add: is_digit_def of_char_digit_char)

lemma digit_value_digit_char: "n < 10 \<Longrightarrow> digit_value (digit_char n) = n"
  by (simp add: digit_value_def of_char_digit_char)

lemma is_digit_plain:
  assumes "is_digit c"
  shows "c \<noteq> CHR ''_''" "c \<noteq> CHR ''+''" "c \<noteq> CHR ''-''" "c \<noteq> CHR '' ''"
    "\<not> is_int_space c" "upper_char c = c" "c \<noteq> CHR ''M''"
  using assms by (auto simp add: is_digit_def is_int_space_def upper_char_def Let_def)

lemma str_nat_digits: "str_nat n \<noteq> [] \<and> list_all is_digit (str_nat n)"
proof (induction n rule: str_nat.induct)
  case (1 n)
  show ?case
  proof (cases "n < 10")
    case True
    then show ?thesis by (simp add: str_nat.simps[of n] digit_char_is_digit)
  next
    case False
    then show ?thesis using 1 by (simp add: str_nat.simps[of n] digit_char_is_digit)
  qed
qed

lemma more_digits_snoc:
  "list_all is_digit ds \<Longrightarrow> is_digit d \<Longrightarrow>
   more_digits acc (ds @ [d]) = map_option (\<lambda>a. 10 * a + digit_value d) (more_digits acc ds)"
  by (induction ds arbitrary: acc) (simp_all add: is_digit_plain)

lemma unsigned_literal_snoc:
  assumes "xs \<noteq> []" "list_all is_digit xs" "is_digit d"
  shows "unsigned_literal (xs @ [d]) = map_option (\<lambda>a. 10 * a + digit_value d) (unsigned_literal xs)"
proof -
  from assms(1) obtain c cs where xs: "xs = c # cs" by (cases xs) auto
  with assms show ?thesis by (simp add: unsigned_literal_def more_digits_snoc)
qed

lemma unsigned_literal_str_nat: "unsigned_literal (str_nat n) = Some n"
proof (induction n rule: str_nat.induct)
  case (1 n)
  show ?case
  proof (cases "n < 10")
    case True
    then show ?thesis
      by (simp add: str_nat.simps[of n] unsigned_literal_def digit_char_is_digit digit_value_digit_char)
  next
    case False
    have d: "is_digit (digit_char (n mod 10))" by (simp add: digit_char_is_digit)
    have "unsigned_literal (str_nat n)
        = map_option (\<lambda>a. 10 * a + digit_value (digit_char (n mod 10))) (unsigned_literal (str_nat (n div 10)))"
      using False str_nat_digits[of "n div 10"] d
      by (simp add: str_nat.simps[of n] unsigned_literal_snoc)
    then show ?thesis using 1 False by (simp add: digit_value_digit_char)
  qed
qed

lemma hd_last_str_nat: "is_digit (hd (str_nat n)) \<and> is_digit (last (str_nat n))"
  using str_nat_digits[of n] by (simp add: list_all_iff)

lemma int_strip_fixed:
  assumes "s \<noteq> []" "\<not> is_int_space (hd s)" "\<not> is_int_space (last s)"
  shows "rev (dropWhile is_int_space (rev (dropWhile is_int_space s))) = s"
proof -
  have a: "dropWhile is_int_space s = s" using assms by (simp add: dropWhile_none)
  have "rev s \<noteq> []" "\<not> is_int_space (hd (rev s))" using assms by (simp_all add: hd_rev)
  then have "dropWhile is_int_space (rev s) = rev s" by (rule dropWhile_none)
  then show ?thesis by (simp add: a)
qed

lemma py_int_str_nat: "py_int (str_nat n) = Some (int n)"
proof -
  obtain c cs where s: "str_nat n = c # cs" using str_nat_digits[of n] by (cases "str_nat n") auto
  have c: "is_digit c" using hd_last_str_nat[of n] s by simp
  have "rev (dropWhile is_int_space (rev (dropWhile is_int_space (str_nat n)))) = str_nat n"
    using str_nat_digits[of n] hd_last_str_nat[of n]
    by (intro int_strip_fixed) (simp_all add: is_digit_plain)
  then show ?thesis
    using unsigned_literal_str_nat[of n] c
    by (simp add: py_int_def s is_digit_plain)
qed

lemma py_int_minus_str_nat: "py_int (CHR ''-'' # str_nat n) = Some (- int n)"
proof -
  have l: "last (CHR ''-'' # str_nat n) = last (str_nat n)"
    using str_nat_digits[of n] by simp
  have h: "\<not> is_int_space (hd (CHR ''-'' # str_nat n))" by (simp add: is_int_space_def)
  have e: "\<not> is_int_space (last (CHR ''-'' # str_nat n))"
    unfolding l using hd_last_str_nat[of n] by (simp add: is_digit_plain)
  have "rev (dropWhile is_int_space (rev (dropWhile is_int_space (CHR ''-'' # str_nat n))))
      = CHR ''-'' # str_nat n"
    using h e by (intro int_strip_fixed) simp_all
  then show ?thesis
    using unsigned_literal_str_nat[of n] by (simp add: py_int_def)
qed

lemma py_int_py_str: "py_int (py_str i) = Some i"
  by (simp add: py_str_def py_int_str_nat py_int_minus_str_nat)

lemma py_int_plus_str_nat: "py_int (CHR ''+'' # str_nat n) = Some (int n)"
proof -
  have l: "last (CHR ''+'' # str_nat n) = last (str_nat n)"
    using str_nat_digits[of n] by simp
  have h: "\<not> is_int_space (hd (CHR ''+'' # str_nat n))" by (simp add: is_int_space_def)
  have e: "\<not> is_int_space (last (CHR ''+'' # str_nat n))"
    unfolding l using hd_last_str_nat[of n] by (simp add: is_digit_plain)
  have "rev (dropWhile is_int_space (rev (dropWhile is_int_space (CHR ''+'' # str_nat n))))
      = CHR ''+'' # str_nat n"
    using h e by (intro int_strip_fixed) simp_all
  then show ?thesis
    using unsigned_literal_str_nat[of n] by (simp add: py_int_def)
qed

lemma digits_unchanged:
  assumes "list_all is_digit s"
  shows "str_upper s = s" "str_remove CHR '' '' s = s" "str_remove CHR ''+'' s = s"
  using assms
  by (induction s) (simp_all add: str_upper_def str_remove_def is_digit_plain)

lemma str_nat_unchanged:
  "str_upper (str_nat n) = str_nat n" "str_remove CHR '' '' (str_nat n) = str_nat n"
  "str_remove CHR ''+'' (str_nat n) = str_nat n"
  using str_nat_digits[of n] by (simp_all add: digits_unchanged)

lemma upper_minus: "upper_char CHR ''-'' = CHR ''-''" "upper_char CHR ''+'' = CHR ''+''"
  "upper_char CHR ''M'' = CHR ''M''" "upper_char CHR ''S'' = CHR ''S''"
  "upper_char CHR ''K'' = CHR ''K''"
  by (simp_all add: upper_char_def)

lemma py_str_unchanged:
  "str_upper (py_str i) = py_str i" "str_remove CHR '' '' (py_str i) = py_str i"
  "str_remove CHR ''+'' (py_str i) = py_str i"
  using str_nat_unchanged
  by (simp_all add: py_str_def str_upper_def str_remove_def upper_minus)

lemma py_str_head: "\<exists>c cs. py_str i = c # cs \<and> (is_digit c \<or> c = CHR ''-'')"
proof (cases "i < 0")
  case True
  then show ?thesis by (simp add: py_str_def)
next
  case False
  obtain c cs where "str_nat (nat i) = c # cs"
    using str_nat_digits[of "nat i"] by (cases "str_nat (nat i)") auto
  moreover from this have "is_digit c" using hd_last_str_nat[of "nat i"] by simp
  ultimately show ?thesis using False by (simp add: py_str_def)
qed

text \<open>The handler's parse reads every decimal integer, signed or not, with or without
  the prefix, as that integer.\<close>

lemma parse_playtime_py_str: "parse_playtime (py_str i) = Some i"
proof -
  obtain c cs where s: "py_str i = c # cs" and c: "is_digit c \<or> c = CHR ''-''"
    using py_str_head[of i] by blast
  have "take 3 (py_str i) \<noteq> ''MSK''" using c by (auto simp add: s is_digit_def)
  then show ?thesis by (simp add: parse_playtime_def py_str_unchanged py_int_py_str)
qed

lemma parse_playtime_plus: "parse_playtime (CHR ''+'' # str_nat k) = Some (int k)"
  by (simp add: parse_playtime_def str_upper_def str_remove_def upper_minus
      str_nat_unchanged[unfolded str_upper_def str_remove_def] py_int_plus_str_nat)

lemma parse_playtime_msk: "parse_playtime (''MSK'' @ py_str i) = Some i"
proof -
  obtain c cs where s: "py_str i = c # cs" and c: "is_digit c \<or> c = CHR ''-''"
    using py_str_head[of i] by blast
  have v: "str_remove CHR '' '' (str_upper (''MSK'' @ py_str i)) = ''MSK'' @ py_str i"
    using py_str_unchanged[of i]
    by (simp add: str_upper_def str_remove_def upper_minus)
  have r: "py_str i \<noteq> [] \<and> py_str i \<noteq> ''+'' \<and> py_str i \<noteq> ''+0''"
    using c by (auto simp add: s is_digit_def)
  show ?thesis
    unfolding parse_playtime_def v using r
    by (simp add: py_str_unchanged py_int_py_str)
qed

lemma str_nat_zero: "str_nat k = ''0'' \<Longrightarrow> k = 0"
proof -
  assume a: "str_nat k = ''0''"
  have "unsigned_literal ''0'' = Some 0"
    by (simp add: unsigned_literal_def is_digit_def digit_value_def)
  with unsigned_literal_str_nat[of k] a show "k = 0" by simp
qed

lemma parse_playtime_msk_plus: "parse_playtime (''MSK+'' @ str_nat k) = Some (int k)"
proof -
  have v: "str_remove CHR '' '' (str_upper (''MSK+'' @ str_nat k)) = ''MSK+'' @ str_nat k"
    using str_nat_unchanged[of k]
    by (simp add: str_upper_def str_remove_def upper_minus)
  have ne: "str_nat k \<noteq> []" using str_nat_digits[of k] by simp
  show ?thesis
  proof (cases "str_nat k = ''0''")
    case True
    then have "k = 0" by (rule str_nat_zero)
    then show ?thesis unfolding parse_playtime_def v using True by simp
  next
    case False
    then show ?thesis unfolding parse_playtime_def v using ne
      by (simp add: str_remove_def str_nat_unchanged[unfolded str_remove_def] py_int_str_nat)
  qed
qed

text \<open>What the step stores is read by the step as the same offset.\<close>

lemma parse_playtime_stored:
  "parse_playtime (''MSK'' @ (if 0 \<le> n then ''+'' @ str_nat (nat n) else ''-'' @ str_nat (nat (- n))))
     = Some n"
proof (cases "0 \<le> n")
  case True
  then show ?thesis using parse_playtime_msk_plus[of "nat n"] by simp
next
  case False
  then have "py_str n = ''-'' @ str_nat (nat (- n))" by (simp add: py_str_def)
  then show ?thesis using parse_playtime_msk[of n] False by simp
qed

subsection \<open>Rank and play time\<close>

lemma ask_languages_fields [simp]:
  "db (ask_languages u dat w) = db w" "view_contexts (ask_languages u dat w) = view_contexts w"
  "fsm_state (ask_languages u dat w) = (fsm_state w)(u := Some Form_languages)"
  "fsm_data (ask_languages u dat w) = fsm_data w"
  by (simp_all add: ask_languages_def)

lemma ask_bio_fields [simp]:
  "db (ask_bio u w) = db w" "view_contexts (ask_bio u w) = view_contexts w"
  "fsm_state (ask_bio u w) = (fsm_state w)(u := Some Form_bio)"
  "fsm_data (ask_bio u w) = fsm_data w"
  by (simp_all add: ask_bio_def)

lemmas text_eval = str_strip_def is_space_def py_int_def is_int_space_def unsigned_literal_def
  is_digit_def digit_value_def parse_playtime_def str_upper_def upper_char_def str_remove_def
  char_of_def bit_Suc_0_iff Let_def


text \<open>
  C5: at the rank step, for an input whose stripped text is not the "-" sentinel: an
  integer from 1 to 60 is stored (in its decimal form) and the dialog moves on to the
  languages; an integer outside 1 to 60, or a text that \<open>int\<close> does not accept, leaves the
  stored answers and the dialog state as they were and sends the re-prompt. Every
  integer, written in decimal, is a text that \<open>int\<close> reads as that integer.
\<close>

theorem rank_step:
  assumes "str_strip text \<noteq> ''-''"
  shows "(py_int (str_strip text) = Some ar \<and> 1 \<le> ar \<and> ar \<le> 60 \<longrightarrow>
            fsm_data (process_ar user text w)
              = (fsm_data w)(user := (fsm_data w user)\<lparr>d_adventure_rank := Some (py_str ar)\<rparr>)
            \<and> fsm_state (process_ar user text w) = (fsm_state w)(user := Some Form_languages))
       \<and> (py_int (str_strip text) = Some ar \<and> (ar < 1 \<or> 60 < ar) \<longrightarrow>
            fsm_data (process_ar user text w) = fsm_data w
            \<and> fsm_state (process_ar user text w) = fsm_state w
            \<and> outbox (process_ar user text w) = outbox w @ [Send user Ar_out_of_range])
       \<and> (py_int (str_strip text) = None \<longrightarrow>
            fsm_data (process_ar user text w) = fsm_data w
            \<and> fsm_state (process_ar user text w) = fsm_state w
            \<and> outbox (process_ar user text w) = outbox w @ [Send user Ar_bad_format])
       \<and> py_int (py_str i) = Some i"
  using assms by (auto simp add: process_ar_def Let_def py_int_py_str)


theorem rank_step_witness:
  "str_strip ''65'' \<noteq> ''-'' \<and> py_int (str_strip ''65'') = Some 65 \<and> ((65::int) < 1 \<or> (60::int) < 65)
   \<and> fsm_data (process_ar 2 ''65'' example_world) = fsm_data example_world
   \<and> fsm_state (process_ar 2 ''65'' example_world) = fsm_state example_world
   \<and> outbox (process_ar 2 ''65'' example_world) = outbox example_world @ [Send 2 Ar_out_of_range]
   \<and> str_strip ''55'' \<noteq> ''-'' \<and> py_int (str_strip ''55'') = Some 55 \<and> (1::int) \<le> 55 \<and> (55::int) \<le> 60
   \<and> fsm_data (process_ar 2 ''55'' example_world)
       = (fsm_data example_world)(2 := (fsm_data example_world 2)\<lparr>d_adventure_rank := Some ''55''\<rparr>)
   \<and> fsm_state (process_ar 2 ''55'' example_world) = (fsm_state example_world)(2 := Some Form_languages)
   \<and> str_strip ''abc'' \<noteq> ''-'' \<and> py_int (str_strip ''abc'') = None
   \<and> fsm_data (process_ar 2 ''abc'' example_world) = fsm_data example_world
   \<and> outbox (process_ar 2 ''abc'' example_world) = outbox example_world @ [Send 2 Ar_bad_format]"
proof -
  have a1: "str_strip ''65'' \<noteq> ''-''" by (simp add: text_eval)
  have a2: "py_int (str_strip ''65'') = Some 65 \<and> ((65::int) < 1 \<or> (60::int) < 65)"
    by (simp add: text_eval)
  have b1: "str_strip ''55'' \<noteq> ''-''" by (simp add: text_eval)
  have b2: "py_int (str_strip ''55'') = Some 55 \<and> (1::int) \<le> 55 \<and> (55::int) \<le> 60"
    by (simp add: text_eval)
  have b3: "py_str 55 = ''55''"
    by (simp add: py_str_def str_nat.simps[of 55] str_nat.simps[of 5] digit_char_def text_eval)
  have c1: "str_strip ''abc'' \<noteq> ''-''" by (simp add: text_eval)
  have c2: "py_int (str_strip ''abc'') = None" by (simp add: text_eval)
  note ta = rank_step[OF a1, of 65 2 example_world]
  note tb = rank_step[OF b1, of 55 2 example_world, unfolded b3]
  note tc = rank_step[OF c1, of 0 2 example_world]
  from ta a2 have a: "fsm_data (process_ar 2 ''65'' example_world) = fsm_data example_world
   \<and> fsm_state (process_ar 2 ''65'' example_world) = fsm_state example_world
   \<and> outbox (process_ar 2 ''65'' example_world) = outbox example_world @ [Send 2 Ar_out_of_range]"
    by blast
  from tb b2 have b: "fsm_data (process_ar 2 ''55'' example_world)
       = (fsm_data example_world)(2 := (fsm_data example_world 2)\<lparr>d_adventure_rank := Some ''55''\<rparr>)
   \<and> fsm_state (process_ar 2 ''55'' example_world) = (fsm_state example_world)(2 := Some Form_languages)"
    by blast
  from tc c2 have c: "fsm_data (process_ar 2 ''abc'' example_world) = fsm_data example_world
   \<and> outbox (process_ar 2 ''abc'' example_world) = outbox example_world @ [Send 2 Ar_bad_format]"
    by blast
  show ?thesis using a1 a2 a b1 b2 b c1 c2 c by blast
qed


lemma py_int_core: "py_int s = int_core (int_strip s)"
  by (simp add: py_int_def int_core_def int_strip_def)

lemma literal_char_plain:
  assumes "literal_char c"
  shows "c \<noteq> CHR ''+''" "c \<noteq> CHR '' ''" "\<not> is_int_space c" "upper_char c = c" "c \<noteq> CHR ''M''"
  using assms
  by (auto simp add: literal_char_def is_digit_def is_int_space_def upper_char_def Let_def)

lemma more_digits_chars:
  "more_digits acc cs = Some m \<Longrightarrow> list_all literal_char cs \<and> (cs \<noteq> [] \<longrightarrow> is_digit (last cs))"
proof (induction acc cs rule: more_digits.induct)
  case (1 acc)
  then show ?case by simp
next
  case (2 acc c cs)
  show ?case
  proof (cases "c = CHR ''_''")
    case True
    with 2(3) obtain d ds where cs: "cs = d # ds" and d: "is_digit d"
      and m: "more_digits (10 * acc + digit_value d) ds = Some m"
      by (cases cs) (auto split: if_splits)
    from 2(1)[OF True cs d m] show ?thesis
      using True cs d by (auto simp add: literal_char_def)
  next
    case False
    with 2(3) have d: "is_digit c" and m: "more_digits (10 * acc + digit_value c) cs = Some m"
      by (auto split: if_splits)
    from 2(2)[OF False d m] show ?thesis
      using d by (auto simp add: literal_char_def)
  qed
qed

lemma unsigned_literal_chars:
  assumes "unsigned_literal lit = Some m"
  shows "lit \<noteq> [] \<and> is_digit (hd lit) \<and> is_digit (last lit) \<and> list_all literal_char lit"
proof -
  from assms obtain c cs where lit: "lit = c # cs" and c: "is_digit c"
    and m: "more_digits (digit_value c) cs = Some m"
    by (cases lit) (auto simp add: unsigned_literal_def split: if_splits)
  from more_digits_chars[OF m] show ?thesis
    using c by (auto simp add: lit literal_char_def)
qed

text \<open>A text that \<open>int\<close> accepts, once stripped, is a sign or none and then a literal.\<close>

lemma int_core_shape:
  assumes "int_core b = Some n"
  shows "\<exists>sgn lit m. b = sgn @ lit \<and> (sgn = [] \<or> sgn = ''+'' \<or> sgn = ''-'')
          \<and> unsigned_literal lit = Some m \<and> n = (if sgn = ''-'' then - int m else int m)"
proof -
  from assms obtain c cs where b: "b = c # cs"
    by (cases b) (auto simp add: int_core_def)
  show ?thesis
  proof (cases "c = CHR ''-''")
    case True
    with assms b obtain m where "unsigned_literal cs = Some m" "n = - int m"
      by (auto simp add: int_core_def)
    then show ?thesis using b True by (intro exI[of _ "''-''"] exI[of _ cs] exI[of _ m]) simp
  next
    case False
    show ?thesis
    proof (cases "c = CHR ''+''")
      case True
      with assms b obtain m where "unsigned_literal cs = Some m" "n = int m"
        by (auto simp add: int_core_def)
      then show ?thesis using b True by (intro exI[of _ "''+''"] exI[of _ cs] exI[of _ m]) simp
    next
      case nplus: False
      with assms b False obtain m where "unsigned_literal (c # cs) = Some m" "n = int m"
        by (auto simp add: int_core_def)
      then show ?thesis using b by (intro exI[of _ "[]"] exI[of _ "c # cs"] exI[of _ m]) simp
    qed
  qed
qed

lemma int_core_ends:
  assumes "int_core b = Some n"
  shows "b \<noteq> [] \<and> \<not> is_int_space (hd b) \<and> \<not> is_int_space (last b)
       \<and> CHR ''M'' \<notin> set b \<and> str_upper b = b \<and> str_remove CHR '' '' b = b"
proof -
  from int_core_shape[OF assms] obtain sgn lit m where b: "b = sgn @ lit"
    and s: "sgn = [] \<or> sgn = ''+'' \<or> sgn = ''-''" and u: "unsigned_literal lit = Some m"
    by blast
  from unsigned_literal_chars[OF u] have l: "lit \<noteq> []" "is_digit (hd lit)" "is_digit (last lit)"
    "list_all literal_char lit" by simp_all
  have "\<not> is_int_space CHR ''+''" "\<not> is_int_space CHR ''-''" by (simp_all add: is_int_space_def)
  then have h: "\<not> is_int_space (hd b)" using s l by (auto simp add: b is_digit_plain)
  have e: "\<not> is_int_space (last b)" using l by (simp add: b is_digit_plain)
  have nm: "\<not> literal_char CHR ''M''" by (simp add: literal_char_def is_digit_def)
  have lm: "CHR ''M'' \<notin> set lit" "str_upper lit = lit" "str_remove CHR '' '' lit = lit"
    using l(4) nm
    by (induction lit) (auto simp add: literal_char_plain str_upper_def str_remove_def)
  have sm: "CHR ''M'' \<notin> set sgn" "str_upper sgn = sgn" "str_remove CHR '' '' sgn = sgn"
    using s by (auto simp add: str_upper_def str_remove_def upper_char_def)
  show ?thesis using h e l(1) lm sm by (simp add: b str_upper_def str_remove_def)
qed

lemma int_core_remove_plus:
  assumes "int_core b = Some n"
  shows "int_core (str_remove CHR ''+'' b) = Some n"
proof -
  from int_core_shape[OF assms] obtain sgn lit m where b: "b = sgn @ lit"
    and s: "sgn = [] \<or> sgn = ''+'' \<or> sgn = ''-''" and u: "unsigned_literal lit = Some m"
    and n: "n = (if sgn = ''-'' then - int m else int m)"
    by blast
  from unsigned_literal_chars[OF u] have l: "lit \<noteq> []" "is_digit (hd lit)" "list_all literal_char lit"
    by simp_all
  have r: "str_remove CHR ''+'' lit = lit"
    using l(3) by (induction lit) (auto simp add: literal_char_plain str_remove_def)
  obtain c cs where lit: "lit = c # cs" using l(1) by (cases lit) auto
  have c: "c \<noteq> CHR ''-''" "c \<noteq> CHR ''+''" using l(2) by (simp_all add: lit is_digit_plain)
  have plain: "int_core lit = Some (int m)" using u c by (simp add: int_core_def lit)
  from s show ?thesis
  proof (elim disjE)
    assume "sgn = []"
    then show ?thesis using plain n r by (simp add: b)
  next
    assume "sgn = ''+''"
    then show ?thesis using plain n r[unfolded str_remove_def] by (simp add: b str_remove_def)
  next
    assume "sgn = ''-''"
    then show ?thesis using assms r[unfolded str_remove_def] by (simp add: b str_remove_def)
  qed
qed

text \<open>Around the stripped text there is only space; between spaces a text with hard ends
  is what stripping leaves.\<close>

lemma int_strip_parts:
  "\<exists>pre post. s = pre @ int_strip s @ post \<and> list_all is_int_space pre \<and> list_all is_int_space post"
proof -
  let ?t = "dropWhile is_int_space s"
  have a: "s = takeWhile is_int_space s @ ?t" by simp
  have b: "?t = int_strip s @ rev (takeWhile is_int_space (rev ?t))"
    unfolding int_strip_def by (metis rev_append rev_rev_ident takeWhile_dropWhile_id)
  have p: "list_all is_int_space (takeWhile is_int_space s)"
    by (simp add: list_all_iff) (meson set_takeWhileD)
  have q: "list_all is_int_space (rev (takeWhile is_int_space (rev ?t)))"
    by (simp add: list_all_iff) (meson set_takeWhileD)
  from a b have "s = takeWhile is_int_space s @ int_strip s @ rev (takeWhile is_int_space (rev ?t))"
    by simp
  with p q show ?thesis by blast
qed

lemma int_strip_between:
  assumes "list_all is_int_space pre" "list_all is_int_space post"
    and "x \<noteq> []" "\<not> is_int_space (hd x)" "\<not> is_int_space (last x)"
  shows "int_strip (pre @ x @ post) = x"
proof -
  have "dropWhile is_int_space (pre @ x @ post) = dropWhile is_int_space (x @ post)"
    by (rule dropWhile_append2) (use assms(1) in \<open>simp add: list_all_iff\<close>)
  also have "\<dots> = x @ post"
    using assms(3,4) by (intro dropWhile_none) simp_all
  finally have a: "dropWhile is_int_space (pre @ x @ post) = x @ post" .
  have "dropWhile is_int_space (rev post @ rev x) = dropWhile is_int_space (rev x)"
    by (rule dropWhile_append2) (use assms(2) in \<open>simp add: list_all_iff\<close>)
  also have "\<dots> = rev x"
    using assms(3,5) by (intro dropWhile_none) (simp_all add: hd_rev)
  finally show ?thesis by (simp add: int_strip_def a)
qed

lemma is_int_space_upper_char: "is_int_space (upper_char c) = is_int_space c"
  by (auto simp add: upper_char_def is_int_space_def Let_def)

lemma spaces_stay:
  assumes "list_all is_int_space p"
  shows "list_all is_int_space (str_remove CHR '' '' (str_upper p))"
    and "CHR ''M'' \<notin> set (str_remove CHR '' '' (str_upper p))"
    and "str_remove CHR ''+'' (str_remove CHR '' '' (str_upper p)) = str_remove CHR '' '' (str_upper p)"
  using assms
  by (induction p)
     (auto simp add: str_remove_def str_upper_def is_int_space_upper_char is_int_space_def
       upper_char_def Let_def)

text \<open>Upper case, the removal of spaces and the removal of plus signs do not change
  what \<open>int\<close> reads from a text it accepts.\<close>

lemma py_int_normalised:
  assumes "py_int s = Some n"
  shows "py_int (str_remove CHR '' '' (str_upper s)) = Some n"
    and "py_int (str_remove CHR ''+'' (str_remove CHR '' '' (str_upper s))) = Some n"
    and "CHR ''M'' \<notin> set (str_remove CHR '' '' (str_upper s))"
proof -
  let ?f = "\<lambda>x. str_remove CHR '' '' (str_upper x)"
  let ?g = "str_remove CHR ''+''"
  define b where "b = int_strip s"
  have core: "int_core b = Some n" using assms by (simp add: py_int_core b_def)
  from int_strip_parts[of s] obtain pre post where s: "s = pre @ b @ post"
    and pre: "list_all is_int_space pre" and post: "list_all is_int_space post"
    unfolding b_def by blast
  note be = int_core_ends[OF core]
  have fs: "?f s = ?f pre @ b @ ?f post"
    using be by (subst s) (simp add: str_remove_def str_upper_def)
  have gs: "?g (?f s) = ?f pre @ ?g b @ ?f post"
    unfolding fs using spaces_stay(3)[OF pre] spaces_stay(3)[OF post]
    by (simp add: str_remove_def)
  have "int_strip (?f s) = b"
    unfolding fs using spaces_stay(1)[OF pre] spaces_stay(1)[OF post] be
    by (intro int_strip_between) simp_all
  then show "py_int (?f s) = Some n" using core by (simp add: py_int_core)
  note ge = int_core_ends[OF int_core_remove_plus[OF core]]
  have "int_strip (?g (?f s)) = ?g b"
    unfolding gs using spaces_stay(1)[OF pre] spaces_stay(1)[OF post] ge
    by (intro int_strip_between) simp_all
  then show "py_int (?g (?f s)) = Some n"
    using int_core_remove_plus[OF core] by (simp add: py_int_core)
  show "CHR ''M'' \<notin> set (?f s)"
    unfolding fs using spaces_stay(2)[OF pre] spaces_stay(2)[OF post] be by simp
qed

text \<open>A text that is a signed integer, with or without the prefix MSK, is parsed by the
  handler as that integer.\<close>

lemma claimed_integer_parsed:
  assumes "claimed_integer s = Some n"
  shows "parse_playtime s = Some n"
proof (cases "take 3 s = ''MSK''")
  case True
  define r where "r = drop 3 s"
  have sp: "s = ''MSK'' @ r" using True append_take_drop_id[of 3 s] by (simp add: r_def)
  have pr: "py_int r = Some n" using assms True by (simp add: claimed_integer_def r_def)
  let ?r' = "str_remove CHR '' '' (str_upper r)"
  have v: "str_remove CHR '' '' (str_upper s) = ''MSK'' @ ?r'"
    by (subst sp) (simp add: str_upper_def str_remove_def upper_char_def)
  have g: "py_int (str_remove CHR ''+'' ?r') = Some n" using pr by (rule py_int_normalised(2))
  have e: "py_int [] = None" by (simp add: py_int_def)
  have z: "py_int ''0'' = Some 0"
    by (simp add: py_int_def is_int_space_def unsigned_literal_def is_digit_def digit_value_def)
  have n1: "str_remove CHR ''+'' [] = []" "str_remove CHR ''+'' ''+'' = []"
    "str_remove CHR ''+'' ''+0'' = ''0''"
    by (simp_all add: str_remove_def)
  have r1: "?r' \<noteq> []"
  proof
    assume a: "?r' = []"
    from g show False unfolding a n1 e by simp
  qed
  have r2: "?r' \<noteq> ''+''"
  proof
    assume a: "?r' = ''+''"
    from g show False unfolding a n1 e by simp
  qed
  have r3: "?r' = ''+0'' \<longrightarrow> n = 0"
  proof
    assume a: "?r' = ''+0''"
    from g show "n = 0" unfolding a n1 z by simp
  qed
  have "parse_playtime s = (if ?r' = ''+0'' then Some 0 else py_int (str_remove CHR ''+'' ?r'))"
    unfolding parse_playtime_def v using r1 r2 by (simp add: Let_def)
  then show ?thesis using g r3 by simp
next
  case False
  then have p: "py_int s = Some n" using assms by (simp add: claimed_integer_def)
  let ?v = "str_remove CHR '' '' (str_upper s)"
  have "CHR ''M'' \<notin> set ?v" using p by (rule py_int_normalised(3))
  then have "take 3 ?v \<noteq> ''MSK''" by (cases ?v) auto
  then show ?thesis
    unfolding parse_playtime_def using py_int_normalised(1)[OF p] by (simp add: Let_def)
qed

text \<open>What the step does, by what the handler reads from the stripped text.\<close>

lemma process_playtime_cases:
  assumes "str_strip text \<noteq> ''-''"
  shows "(parse_playtime (str_strip text) = Some n \<and> - 12 \<le> n \<and> n \<le> 14 \<longrightarrow>
            fsm_data (process_playtime user text w)
              = (fsm_data w)(user := (fsm_data w user)\<lparr>d_playtime :=
                   Some (''MSK'' @ (if 0 \<le> n then ''+'' @ str_nat (nat n)
                                    else ''-'' @ str_nat (nat (- n))))\<rparr>)
            \<and> fsm_state (process_playtime user text w) = (fsm_state w)(user := Some Form_bio))
       \<and> (parse_playtime (str_strip text) = Some n \<and> (n < - 12 \<or> 14 < n) \<longrightarrow>
            fsm_data (process_playtime user text w) = fsm_data w
            \<and> fsm_state (process_playtime user text w) = fsm_state w
            \<and> outbox (process_playtime user text w) = outbox w @ [Send user Playtime_out_of_range])
       \<and> (parse_playtime (str_strip text) = None
            \<and> 1 \<le> length (str_strip text) \<and> length (str_strip text) \<le> 64 \<longrightarrow>
            fsm_data (process_playtime user text w)
              = (fsm_data w)(user := (fsm_data w user)\<lparr>d_playtime := Some (str_strip text)\<rparr>)
            \<and> fsm_state (process_playtime user text w) = (fsm_state w)(user := Some Form_bio))
       \<and> (parse_playtime (str_strip text) = None
            \<and> (length (str_strip text) < 1 \<or> 64 < length (str_strip text)) \<longrightarrow>
            fsm_data (process_playtime user text w) = fsm_data w
            \<and> fsm_state (process_playtime user text w) = fsm_state w
            \<and> outbox (process_playtime user text w) = outbox w @ [Send user Playtime_bad_format])"
  using assms by (auto simp add: process_playtime_def Let_def py_str_def[of n])

text \<open>The handler's reading, told with the integer texts: 0 from MSK alone, MSK+ and
  MSK+0; otherwise, of the text in upper case and without spaces, and after MSK without
  plus signs, the integer that this text is.\<close>

lemma parse_playtime_reading:
  "parse_playtime t =
     (let v = str_remove CHR '' '' (str_upper t)
      in if v = ''MSK'' \<or> v = ''MSK+'' \<or> v = ''MSK+0'' then Some 0
         else if take 3 v = ''MSK''
              then claimed_integer (''MSK'' @ str_remove CHR ''+'' (drop 3 v))
              else claimed_integer v)"
proof -
  define v where "v = str_remove CHR '' '' (str_upper t)"
  show ?thesis
  proof (cases "take 3 v = ''MSK''")
    case True
    then have sp: "v = ''MSK'' @ drop 3 v" using append_take_drop_id[of 3 v] by simp
    have a: "v = ''MSK'' \<longleftrightarrow> drop 3 v = []" "v = ''MSK+'' \<longleftrightarrow> drop 3 v = ''+''"
      "v = ''MSK+0'' \<longleftrightarrow> drop 3 v = ''+0''"
      by (subst sp, simp)+
    show ?thesis
      unfolding parse_playtime_def claimed_integer_def Let_def v_def[symmetric]
      using True a by simp
  next
    case False
    then have "v \<noteq> ''MSK''" "v \<noteq> ''MSK+''" "v \<noteq> ''MSK+0''" by auto
    then show ?thesis
      unfolding parse_playtime_def claimed_integer_def Let_def v_def[symmetric]
      using False by simp
  qed
qed

text \<open>
  C4 (amended): at the play-time step, for an input whose stripped text is not the "-"
  sentinel, the handler reads a number from the stripped text put in upper case and
  freed of its spaces: 0 from MSK alone, from MSK+ and from MSK+0; from MSK followed
  by more, the integer that is left of it when its plus signs are removed; from any
  other text, the integer that the text is. Every text that is a signed integer,
  optionally prefixed MSK, is read as that integer (and so is every decimal integer,
  with or without a sign and with or without the prefix). When a number \<open>n\<close> is read,
  the input is accepted only for \<open>n\<close> from -12 to 14 and the stored answer is MSK
  followed by "+" and the decimal of \<open>n\<close> when \<open>n\<close> is not negative, or by "-" and the
  decimal of \<open>-n\<close> otherwise; an \<open>n\<close> outside the range changes neither answers nor
  state and sends the re-prompt. When no number is read, the stripped text is stored as
  it is if its length is from 1 to 64, and otherwise nothing changes and the re-prompt
  is sent.
\<close>

theorem playtime_step:
  assumes "str_strip text \<noteq> ''-''"
  shows "(claimed_integer (str_strip text) = Some n \<longrightarrow> parse_playtime (str_strip text) = Some n)
       \<and> parse_playtime (str_strip text) =
           (let v = str_remove CHR '' '' (str_upper (str_strip text))
            in if v = ''MSK'' \<or> v = ''MSK+'' \<or> v = ''MSK+0'' then Some 0
               else if take 3 v = ''MSK''
                    then claimed_integer (''MSK'' @ str_remove CHR ''+'' (drop 3 v))
                    else claimed_integer v)
       \<and> (parse_playtime (str_strip text) = Some n \<and> - 12 \<le> n \<and> n \<le> 14 \<longrightarrow>
            fsm_data (process_playtime user text w)
              = (fsm_data w)(user := (fsm_data w user)\<lparr>d_playtime :=
                   Some (''MSK'' @ (if 0 \<le> n then ''+'' @ str_nat (nat n)
                                    else ''-'' @ str_nat (nat (- n))))\<rparr>)
            \<and> fsm_state (process_playtime user text w) = (fsm_state w)(user := Some Form_bio))
       \<and> (parse_playtime (str_strip text) = Some n \<and> (n < - 12 \<or> 14 < n) \<longrightarrow>
            fsm_data (process_playtime user text w) = fsm_data w
            \<and> fsm_state (process_playtime user text w) = fsm_state w
            \<and> outbox (process_playtime user text w) = outbox w @ [Send user Playtime_out_of_range])
       \<and> (parse_playtime (str_strip text) = None
            \<and> 1 \<le> length (str_strip text) \<and> length (str_strip text) \<le> 64 \<longrightarrow>
            fsm_data (process_playtime user text w)
              = (fsm_data w)(user := (fsm_data w user)\<lparr>d_playtime := Some (str_strip text)\<rparr>)
            \<and> fsm_state (process_playtime user text w) = (fsm_state w)(user := Some Form_bio))
       \<and> (parse_playtime (str_strip text) = None
            \<and> (length (str_strip text) < 1 \<or> 64 < length (str_strip text)) \<longrightarrow>
            fsm_data (process_playtime user text w) = fsm_data w
            \<and> fsm_state (process_playtime user text w) = fsm_state w
            \<and> outbox (process_playtime user text w) = outbox w @ [Send user Playtime_bad_format])
       \<and> parse_playtime (py_str i) = Some i
       \<and> parse_playtime (CHR ''+'' # str_nat k) = Some (int k)
       \<and> parse_playtime (''MSK'' @ py_str i) = Some i
       \<and> parse_playtime (''MSK+'' @ str_nat k) = Some (int k)"
proof -
  have a: "claimed_integer (str_strip text) = Some n \<longrightarrow> parse_playtime (str_strip text) = Some n"
    by (simp add: claimed_integer_parsed)
  note b = parse_playtime_reading[of "str_strip text"]
  note c = process_playtime_cases[OF assms, of n user w]
  note d = parse_playtime_py_str[of i] parse_playtime_plus[of k] parse_playtime_msk[of i]
    parse_playtime_msk_plus[of k]
  show ?thesis
    apply (intro conjI)
             apply (rule a)
            apply (rule b)
           apply (rule c[THEN conjunct1])
          apply (rule c[THEN conjunct2, THEN conjunct1])
         apply (rule c[THEN conjunct2, THEN conjunct2, THEN conjunct1])
        apply (rule c[THEN conjunct2, THEN conjunct2, THEN conjunct2])
       apply (rule d(1))
      apply (rule d(2))
     apply (rule d(3))
    apply (rule d(4))
    done
qed

theorem playtime_step_witness:
  "str_strip '' msk +3 '' \<noteq> ''-'' \<and> parse_playtime (str_strip '' msk +3 '') = Some 3
   \<and> - 12 \<le> (3::int) \<and> (3::int) \<le> 14
   \<and> fsm_data (process_playtime 2 '' msk +3 '' example_world)
       = (fsm_data example_world)(2 := (fsm_data example_world 2)\<lparr>d_playtime := Some ''MSK+3''\<rparr>)
   \<and> fsm_state (process_playtime 2 '' msk +3 '' example_world)
       = (fsm_state example_world)(2 := Some Form_bio)
   \<and> str_strip ''-13'' \<noteq> ''-'' \<and> claimed_integer (str_strip ''-13'') = Some (- 13)
   \<and> parse_playtime (str_strip ''-13'') = Some (- 13)
   \<and> ((- 13::int) < - 12 \<or> 14 < (- 13::int))
   \<and> fsm_data (process_playtime 2 ''-13'' example_world) = fsm_data example_world
   \<and> fsm_state (process_playtime 2 ''-13'' example_world) = fsm_state example_world
   \<and> outbox (process_playtime 2 ''-13'' example_world)
       = outbox example_world @ [Send 2 Playtime_out_of_range]
   \<and> str_strip ''MSK-5'' \<noteq> ''-'' \<and> claimed_integer (str_strip ''MSK-5'') = Some (- 5)
   \<and> parse_playtime (str_strip ''MSK-5'') = Some (- 5)
   \<and> - 12 \<le> (- 5::int) \<and> (- 5::int) \<le> 14
   \<and> fsm_data (process_playtime 2 ''MSK-5'' example_world)
       = (fsm_data example_world)(2 := (fsm_data example_world 2)\<lparr>d_playtime := Some ''MSK-5''\<rparr>)
   \<and> str_strip ''after work'' \<noteq> ''-'' \<and> parse_playtime (str_strip ''after work'') = None
   \<and> 1 \<le> length (str_strip ''after work'') \<and> length (str_strip ''after work'') \<le> 64
   \<and> fsm_data (process_playtime 2 ''after work'' example_world)
       = (fsm_data example_world)(2 := (fsm_data example_world 2)\<lparr>d_playtime := Some ''after work''\<rparr>)
   \<and> str_strip ''  '' \<noteq> ''-'' \<and> parse_playtime (str_strip ''  '') = None
   \<and> (length (str_strip ''  '') < 1 \<or> 64 < length (str_strip ''  ''))
   \<and> fsm_data (process_playtime 2 ''  '' example_world) = fsm_data example_world
   \<and> outbox (process_playtime 2 ''  '' example_world)
       = outbox example_world @ [Send 2 Playtime_bad_format]"
proof -
  have a1: "str_strip '' msk +3 '' \<noteq> ''-''" by (simp add: text_eval)
  have a2: "parse_playtime (str_strip '' msk +3 '') = Some 3 \<and> - 12 \<le> (3::int) \<and> (3::int) \<le> 14"
    by (simp add: text_eval)
  have a3: "''MSK'' @ (if 0 \<le> (3::int) then ''+'' @ str_nat (nat 3) else ''-'' @ str_nat (nat (- 3)))
      = ''MSK+3''"
    by (simp add: str_nat.simps[of 3] digit_char_def text_eval)
  have b1: "str_strip ''-13'' \<noteq> ''-''" by (simp add: text_eval)
  have b2: "claimed_integer (str_strip ''-13'') = Some (- 13)"
    by (simp add: claimed_integer_def text_eval)
  have b3: "((- 13::int) < - 12 \<or> 14 < (- 13::int))" by simp
  have e1: "str_strip ''MSK-5'' \<noteq> ''-''" by (simp add: text_eval)
  have e2: "claimed_integer (str_strip ''MSK-5'') = Some (- 5)"
    by (simp add: claimed_integer_def text_eval)
  have e3: "- 12 \<le> (- 5::int) \<and> (- 5::int) \<le> 14" by simp
  have e4: "''MSK'' @ (if 0 \<le> (- 5::int) then ''+'' @ str_nat (nat (- 5)) else ''-'' @ str_nat (nat (- (- 5))))
      = ''MSK-5''"
    by (simp add: str_nat.simps[of 5] digit_char_def text_eval)
  have c1: "str_strip ''after work'' \<noteq> ''-''" by (simp add: text_eval)
  have c2: "parse_playtime (str_strip ''after work'') = None
     \<and> 1 \<le> length (str_strip ''after work'') \<and> length (str_strip ''after work'') \<le> 64"
    by (simp add: text_eval)
  have c3: "str_strip ''after work'' = ''after work''" by (simp add: text_eval)
  have d1: "str_strip ''  '' \<noteq> ''-''" by (simp add: text_eval)
  have d2: "parse_playtime (str_strip ''  '') = None
     \<and> (length (str_strip ''  '') < 1 \<or> 64 < length (str_strip ''  ''))"
    by (simp add: text_eval)
  note ta = playtime_step[OF a1, of 3 2 example_world, unfolded a3]
  note tb = playtime_step[OF b1, of "- 13" 2 example_world]
  note te = playtime_step[OF e1, of "- 5" 2 example_world, unfolded e4]
  note tc = playtime_step[OF c1, of 0 2 example_world]
  note td = playtime_step[OF d1, of 0 2 example_world]
  from ta a2 have a: "fsm_data (process_playtime 2 '' msk +3 '' example_world)
       = (fsm_data example_world)(2 := (fsm_data example_world 2)\<lparr>d_playtime := Some ''MSK+3''\<rparr>)
   \<and> fsm_state (process_playtime 2 '' msk +3 '' example_world)
       = (fsm_state example_world)(2 := Some Form_bio)"
    by blast
  from tb b2 have b4: "parse_playtime (str_strip ''-13'') = Some (- 13)" by blast
  from tb b4 b3 have b: "fsm_data (process_playtime 2 ''-13'' example_world) = fsm_data example_world
   \<and> fsm_state (process_playtime 2 ''-13'' example_world) = fsm_state example_world
   \<and> outbox (process_playtime 2 ''-13'' example_world)
       = outbox example_world @ [Send 2 Playtime_out_of_range]"
    by blast
  from te e2 have e5: "parse_playtime (str_strip ''MSK-5'') = Some (- 5)" by blast
  from te e5 e3 have e: "fsm_data (process_playtime 2 ''MSK-5'' example_world)
       = (fsm_data example_world)(2 := (fsm_data example_world 2)\<lparr>d_playtime := Some ''MSK-5''\<rparr>)"
    by blast
  from tc c2 have "fsm_data (process_playtime 2 ''after work'' example_world)
       = (fsm_data example_world)(2 := (fsm_data example_world 2)\<lparr>d_playtime := Some (str_strip ''after work'')\<rparr>)"
    by blast
  then have c: "fsm_data (process_playtime 2 ''after work'' example_world)
       = (fsm_data example_world)(2 := (fsm_data example_world 2)\<lparr>d_playtime := Some ''after work''\<rparr>)"
    by (simp add: c3)
  from td d2 have d: "fsm_data (process_playtime 2 ''  '' example_world) = fsm_data example_world
   \<and> outbox (process_playtime 2 ''  '' example_world)
       = outbox example_world @ [Send 2 Playtime_bad_format]"
    by blast
  show ?thesis using a1 a2 a b1 b2 b4 b3 b e1 e2 e5 e3 e c1 c2 c d1 d2 d by blast
qed

text \<open>
  The claim as it was stated fails on texts that are no integers, with or without MSK
  in front, and have a length from 1 to 64, but are not stored as they are: MSK alone
  is stored as MSK+0; "1 5" is read as 15 and answered with the out-of-range re-prompt,
  nothing being stored; and of " hi " the stripped text is stored, not the input.
\<close>

theorem playtime_step_counterexample:
  "str_strip ''MSK'' \<noteq> ''-'' \<and> claimed_integer ''MSK'' = None
   \<and> 1 \<le> length ''MSK'' \<and> length ''MSK'' \<le> 64
   \<and> d_playtime (fsm_data (process_playtime 2 ''MSK'' example_world) 2) = Some ''MSK+0''
   \<and> ''MSK+0'' \<noteq> ''MSK''
   \<and> str_strip ''1 5'' \<noteq> ''-'' \<and> claimed_integer ''1 5'' = None
   \<and> 1 \<le> length ''1 5'' \<and> length ''1 5'' \<le> 64
   \<and> fsm_data (process_playtime 2 ''1 5'' example_world) = fsm_data example_world
   \<and> fsm_state (process_playtime 2 ''1 5'' example_world) = fsm_state example_world
   \<and> outbox (process_playtime 2 ''1 5'' example_world)
       = outbox example_world @ [Send 2 Playtime_out_of_range]
   \<and> d_playtime (fsm_data example_world 2) \<noteq> Some ''1 5''
   \<and> str_strip '' hi '' \<noteq> ''-'' \<and> claimed_integer '' hi '' = None
   \<and> 1 \<le> length '' hi '' \<and> length '' hi '' \<le> 64
   \<and> d_playtime (fsm_data (process_playtime 2 '' hi '' example_world) 2) = Some ''hi''
   \<and> ''hi'' \<noteq> '' hi ''"
proof -
  have a1: "str_strip ''MSK'' \<noteq> ''-''" by (simp add: text_eval)
  have a2: "claimed_integer ''MSK'' = None" by (simp add: claimed_integer_def text_eval)
  have a3: "parse_playtime (str_strip ''MSK'') = Some 0 \<and> - 12 \<le> (0::int) \<and> (0::int) \<le> 14"
    by (simp add: text_eval)
  have a4: "''MSK'' @ (if 0 \<le> (0::int) then ''+'' @ str_nat (nat 0) else ''-'' @ str_nat (nat (- 0)))
      = ''MSK+0''"
    by (simp add: str_nat.simps[of 0] digit_char_def text_eval)
  note ta = process_playtime_cases[OF a1, of 0 2 example_world, unfolded a4]
  from ta a3 have "fsm_data (process_playtime 2 ''MSK'' example_world)
       = (fsm_data example_world)(2 := (fsm_data example_world 2)\<lparr>d_playtime := Some ''MSK+0''\<rparr>)"
    by blast
  then have a: "d_playtime (fsm_data (process_playtime 2 ''MSK'' example_world) 2) = Some ''MSK+0''"
    by simp
  have b1: "str_strip ''1 5'' \<noteq> ''-''" by (simp add: text_eval)
  have b2: "claimed_integer ''1 5'' = None" by (simp add: claimed_integer_def text_eval)
  have b3: "parse_playtime (str_strip ''1 5'') = Some 15 \<and> ((15::int) < - 12 \<or> 14 < (15::int))"
    by (simp add: text_eval)
  note tb = process_playtime_cases[OF b1, of 15 2 example_world]
  from tb b3 have b: "fsm_data (process_playtime 2 ''1 5'' example_world) = fsm_data example_world
   \<and> fsm_state (process_playtime 2 ''1 5'' example_world) = fsm_state example_world
   \<and> outbox (process_playtime 2 ''1 5'' example_world)
       = outbox example_world @ [Send 2 Playtime_out_of_range]"
    by blast
  have b4: "d_playtime (fsm_data example_world 2) \<noteq> Some ''1 5''"
    by (simp add: example_world_def empty_data_def)
  have c1: "str_strip '' hi '' \<noteq> ''-''" by (simp add: text_eval)
  have c2: "claimed_integer '' hi '' = None" by (simp add: claimed_integer_def text_eval)
  have c3: "str_strip '' hi '' = ''hi''" by (simp add: text_eval)
  have c4: "parse_playtime (str_strip '' hi '') = None
     \<and> 1 \<le> length (str_strip '' hi '') \<and> length (str_strip '' hi '') \<le> 64"
    by (simp add: text_eval)
  note tc = process_playtime_cases[OF c1, of 0 2 example_world]
  from tc c4 have "fsm_data (process_playtime 2 '' hi '' example_world)
       = (fsm_data example_world)(2 := (fsm_data example_world 2)\<lparr>d_playtime := Some (str_strip '' hi '')\<rparr>)"
    by blast
  then have c: "d_playtime (fsm_data (process_playtime 2 '' hi '' example_world) 2) = Some ''hi''"
    by (simp add: c3)
  have l: "1 \<le> length ''MSK'' \<and> length ''MSK'' \<le> 64 \<and> ''MSK+0'' \<noteq> ''MSK''
    \<and> 1 \<le> length ''1 5'' \<and> length ''1 5'' \<le> 64
    \<and> 1 \<le> length '' hi '' \<and> length '' hi '' \<le> 64 \<and> ''hi'' \<noteq> '' hi ''"
    by simp
  show ?thesis using a1 a2 a b1 b2 b b4 c1 c2 c l by blast
qed

end
